theory Spec2Isabelle
  imports Main "HOL-Library.Word" "HOL-Library.Sublist"
begin

unbundle bit_operations_syntax

section \<open>Machine integers and their bytes in memory\<close>

type_synonym u8 = "8 word"
type_synonym u32 = "32 word"
type_synonym u64 = "64 word"

text \<open>
  The header of a frame is sent as the bytes of a C struct, so the bytes of an unsigned
  integer in memory are part of the protocol. They depend on the byte order of the
  platform, which the program does not normalise; it is a parameter of the model.
\<close>

datatype endian = LittleEndian | BigEndian

text \<open>The \<open>n\<close> low-order bytes of a word, least significant byte first.\<close>

fun word_to_le :: "nat \<Rightarrow> 'a::len word \<Rightarrow> u8 list" where
  "word_to_le 0 w = []"
| "word_to_le (Suc n) w = ucast w # word_to_le n (drop_bit 8 w)"

fun le_to_word :: "u8 list \<Rightarrow> 'a::len word" where
  "le_to_word [] = 0"
| "le_to_word (b # bs) = ucast b OR push_bit 8 (le_to_word bs)"

definition to_bytes :: "endian \<Rightarrow> nat \<Rightarrow> 'a::len word \<Rightarrow> u8 list" where
  "to_bytes e n w = (case e of LittleEndian \<Rightarrow> word_to_le n w | BigEndian \<Rightarrow> rev (word_to_le n w))"

definition of_bytes :: "endian \<Rightarrow> u8 list \<Rightarrow> 'a::len word" where
  "of_bytes e bs = (case e of LittleEndian \<Rightarrow> le_to_word bs | BigEndian \<Rightarrow> le_to_word (rev bs))"

section \<open>Frames\<close>

text \<open>
  \<open>struct StreamFrame\<close> of PythonStreamServer.h. A \<open>std::shared_ptr<uint8_t>\<close> is
  \<open>None\<close> when null and otherwise the bytes of the array it owns. The struct does not
  tie the length of that array to the \<open>size\<close> field beside it.
\<close>

record StreamFrame =
  timestamp :: u64
  frame_id :: u32
  depth_width :: u32
  depth_height :: u32
  depth_size :: u32
  depth_data :: "u8 list option"
  rgb_width :: u32
  rgb_height :: u32
  rgb_size :: u32
  rgb_data :: "u8 list option"
  ir_width :: u32
  ir_height :: u32
  ir_size :: u32
  ir_data :: "u8 list option"

text \<open>
  Modelled from the spec: the raw frame record \<open>AS_SDK_Data_s\<close> is declared in the
  camera vendor's header as_camera_sdk_def.h, which is not among the sources. Section 6
  of the specification gives every modality as (width, height, size, dataPointer); the
  code reads these four members of \<open>depthImg\<close>, \<open>rgbImg\<close> and \<open>irImg\<close> and assigns
  the first three to \<open>uint32_t\<close> fields. The other modalities are never read by the
  streaming server.
\<close>

record AS_Frame_s =
  img_width :: u32
  img_height :: u32
  img_size :: u32
  img_data :: "u8 list option"

record AS_SDK_Data_s =
  depthImg :: AS_Frame_s
  rgbImg :: AS_Frame_s
  irImg :: AS_Frame_s

section \<open>The server object\<close>

text \<open>
  The data members of \<open>class PythonStreamServer\<close>. \<open>m_server_thread\<close> records whether
  the \<open>std::thread\<close> member is joinable; the mutex carries no data. The model is
  sequential: each member function runs to its end before the next one starts.
\<close>

record PythonStreamServer =
  m_port :: int
  m_server_socket :: int
  m_running :: bool
  m_connected_clients :: int
  m_server_thread :: bool
  m_frame_queue :: "StreamFrame list"
  m_frame_counter :: u32

definition MAX_QUEUE_SIZE :: nat where
  "MAX_QUEUE_SIZE = 10"

text \<open>The constructor.\<close>

definition new_server :: "int \<Rightarrow> PythonStreamServer" where
  "new_server port =
     \<lparr>m_port = port, m_server_socket = - 1, m_running = False, m_connected_clients = 0,
      m_server_thread = False, m_frame_queue = [], m_frame_counter = 0\<rparr>"

section \<open>Ingestion\<close>

text \<open>
  What can stop \<open>convertToStreamFrame\<close>: \<open>new uint8_t[n]\<close> throws
  \<open>std::bad_alloc\<close>, which nothing in the ingestion path catches, and \<open>memcpy\<close>
  from a null pointer or past the end of the driver's buffer is undefined behaviour.
\<close>

datatype error = BadAlloc | BadRead

text \<open>
  The allocator is an environment: the list holds the outcome of the coming calls of
  \<open>new\<close>, in order (\<open>True\<close>: memory was obtained). Once the list is used up every
  call succeeds.
\<close>

type_synonym allocator = "bool list"

definition new_array :: "allocator \<Rightarrow> bool \<times> allocator" where
  "new_array al = (case al of [] \<Rightarrow> (True, []) | ok # rest \<Rightarrow> (ok, rest))"

text \<open>
  One of the three blocks "Copy depth data", "Copy RGB data", "Copy IR data" of
  \<open>convertToStreamFrame\<close>, which differ only in the plane they name. The result is the
  (width, height, size, data) written to the frame.
\<close>

definition copy_plane ::
  "allocator \<Rightarrow> AS_Frame_s \<Rightarrow> error + ((u32 \<times> u32 \<times> u32 \<times> u8 list option) \<times> allocator)" where
  "copy_plane al p =
     (if img_size p > 0 then
        (case new_array al of
           (False, al') \<Rightarrow> Inl BadAlloc
         | (True, al') \<Rightarrow>
             (case img_data p of
                None \<Rightarrow> Inl BadRead
              | Some src \<Rightarrow>
                  if length src < unat (img_size p) then Inl BadRead
                  else Inr ((img_width p, img_height p, img_size p,
                             Some (take (unat (img_size p)) src)), al')))
      else Inr ((0, 0, 0, None), al))"

text \<open>
  \<open>convertToStreamFrame\<close>; \<open>now\<close> is the reading of the clock in microseconds.
  The counter is incremented before the planes are copied, so it stays incremented
  when a copy stops the function.
\<close>

definition convertToStreamFrame ::
  "u64 \<Rightarrow> allocator \<Rightarrow> AS_SDK_Data_s \<Rightarrow> PythonStreamServer
     \<Rightarrow> (error + StreamFrame) \<times> PythonStreamServer" where
  "convertToStreamFrame now al pstData s =
     (let s' = s\<lparr>m_frame_counter := m_frame_counter s + 1\<rparr>;
          fid = m_frame_counter s'
      in case copy_plane al (depthImg pstData) of
           Inl e \<Rightarrow> (Inl e, s')
         | Inr ((dw, dh, ds, dd), al1) \<Rightarrow>
        (case copy_plane al1 (rgbImg pstData) of
           Inl e \<Rightarrow> (Inl e, s')
         | Inr ((rw, rh, rs, rd), al2) \<Rightarrow>
        (case copy_plane al2 (irImg pstData) of
           Inl e \<Rightarrow> (Inl e, s')
         | Inr ((iw, ih, is, idt), al3) \<Rightarrow>
             (Inr \<lparr>timestamp = now, frame_id = fid,
                   depth_width = dw, depth_height = dh, depth_size = ds, depth_data = dd,
                   rgb_width = rw, rgb_height = rh, rgb_size = rs, rgb_data = rd,
                   ir_width = iw, ir_height = ih, ir_size = is, ir_data = idt\<rparr>, s'))))"

text \<open>
  The loop \<open>while (m_frame_queue.size() >= MAX_QUEUE_SIZE) m_frame_queue.pop();\<close>
  of \<open>pushFrame\<close>. The head of the list is the front of the queue.
\<close>

function evict :: "'a list \<Rightarrow> 'a list" where
  "evict q = (if length q \<ge> MAX_QUEUE_SIZE then evict (tl q) else q)"
  by pat_completeness auto
termination
  by (relation "measure length") (auto simp: MAX_QUEUE_SIZE_def)

declare evict.simps [simp del]

text \<open>
  \<open>pushFrame\<close> returns nothing. The outcome says which way the call went: it returned
  at the guard, it was left by an exception, or it put a frame on the queue.
\<close>

datatype push_outcome = Ignored | Raised error | Enqueued StreamFrame

definition pushFrame ::
  "u64 \<Rightarrow> allocator \<Rightarrow> AS_SDK_Data_s option \<Rightarrow> PythonStreamServer
     \<Rightarrow> push_outcome \<times> PythonStreamServer" where
  "pushFrame now al pstData s =
     (if \<not> m_running s \<or> pstData = None then (Ignored, s)
      else case pstData of
        None \<Rightarrow> (Ignored, s)
      | Some d \<Rightarrow>
          (case convertToStreamFrame now al d s of
             (Inl e, s') \<Rightarrow> (Raised e, s')
           | (Inr frame, s') \<Rightarrow>
               (Enqueued frame,
                s'\<lparr>m_frame_queue := evict (m_frame_queue s') @ [frame]\<rparr>)))"

text \<open>
  The locked block "Get latest frame" of \<open>clientHandler\<close>, which the specification
  calls \<open>tryPop\<close>: the front of the queue, removed, or nothing.
\<close>

definition tryPop :: "PythonStreamServer \<Rightarrow> StreamFrame option \<times> PythonStreamServer" where
  "tryPop s =
     (case m_frame_queue s of
        [] \<Rightarrow> (None, s)
      | frame # q \<Rightarrow> (Some frame, s\<lparr>m_frame_queue := q\<rparr>))"

section \<open>Sockets and the operating system\<close>

text \<open>
  The system calls the server makes, in the order it makes them. A \<open>send\<close> is
  recorded with the number of bytes requested and the value returned.
\<close>

datatype event =
    EvSocket int
  | EvSetsockopt int
  | EvBind int int
  | EvListen int
  | EvClose int
  | EvShutdown int
  | EvSend int nat int
  | EvSpawnServerThread
  | EvJoinServerThread
  | EvSleep

text \<open>
  The world of the server: the server object, for every descriptor the bytes that its
  peer has been handed (\<open>wire\<close>) and what the kernel will answer to the coming calls
  of \<open>send\<close> on it (\<open>script\<close>), and the system calls made so far.
\<close>

record world =
  srv :: PythonStreamServer
  wire :: "int \<Rightarrow> u8 list"
  script :: "int \<Rightarrow> int list"
  trace :: "event list"

text \<open>
  \<open>send(fd, buf, len, MSG_NOSIGNAL)\<close> on \<open>len\<close> readable bytes. An entry \<open>r\<close> of the
  script makes the call fail with \<open>-1\<close> when \<open>r < 0\<close> and accept \<open>min r len\<close> bytes
  otherwise; with the script used up the kernel accepts everything.
\<close>

definition send_sys :: "int \<Rightarrow> u8 list \<Rightarrow> nat \<Rightarrow> world \<Rightarrow> int \<times> world" where
  "send_sys fd buf len w =
     (case script w fd of
        [] \<Rightarrow>
          (int len, w\<lparr>wire := (wire w)(fd := wire w fd @ take len buf),
                       trace := trace w @ [EvSend fd len (int len)]\<rparr>)
      | r # rest \<Rightarrow>
          if r < 0 then
            (- 1, w\<lparr>script := (script w)(fd := rest),
                     trace := trace w @ [EvSend fd len (- 1)]\<rparr>)
          else
            (let n = min (nat r) len
             in (int n, w\<lparr>wire := (wire w)(fd := wire w fd @ take n buf),
                           script := (script w)(fd := rest),
                           trace := trace w @ [EvSend fd len (int n)]\<rparr>)))"

section \<open>The wire protocol\<close>

text \<open>The local \<open>struct FrameHeader\<close> of \<open>sendFrameToClient\<close>.\<close>

record FrameHeader =
  hdr_timestamp :: u64
  hdr_frame_id :: u32
  hdr_depth_width :: u32
  hdr_depth_height :: u32
  hdr_depth_size :: u32
  hdr_rgb_width :: u32
  hdr_rgb_height :: u32
  hdr_rgb_size :: u32
  hdr_ir_width :: u32
  hdr_ir_height :: u32
  hdr_ir_size :: u32

text \<open>
  The bytes of the struct in memory: one 8-byte member and ten 4-byte members in the
  order of their declaration. Every member starts at a multiple of its size and the
  total is a multiple of 8, so the compiler inserts no padding.
\<close>

definition header_bytes :: "endian \<Rightarrow> FrameHeader \<Rightarrow> u8 list" where
  "header_bytes e h =
     to_bytes e 8 (hdr_timestamp h) @ to_bytes e 4 (hdr_frame_id h) @
     to_bytes e 4 (hdr_depth_width h) @ to_bytes e 4 (hdr_depth_height h) @
     to_bytes e 4 (hdr_depth_size h) @
     to_bytes e 4 (hdr_rgb_width h) @ to_bytes e 4 (hdr_rgb_height h) @
     to_bytes e 4 (hdr_rgb_size h) @
     to_bytes e 4 (hdr_ir_width h) @ to_bytes e 4 (hdr_ir_height h) @
     to_bytes e 4 (hdr_ir_size h)"

definition sizeof_FrameHeader :: nat where
  "sizeof_FrameHeader = 48"

text \<open>Reading a frame's buffer beyond its end is undefined behaviour.\<close>

datatype fault = BufferOverread

text \<open>
  One of the three blocks "Send depth data", "Send RGB data", "Send IR data" of
  \<open>sendFrameToClient\<close>. \<open>Inr False\<close> is the \<open>return false\<close> of the block,
  \<open>Inr True\<close> falls through to the next statement. \<open>ssize_t\<close> has 64 bits, so the
  cast of the 32-bit size keeps its value.
\<close>

definition send_plane :: "int \<Rightarrow> u32 \<Rightarrow> u8 list option \<Rightarrow> world \<Rightarrow> (fault + bool) \<times> world" where
  "send_plane fd sz data w =
     (case (sz > 0, data) of
        (True, Some buf) \<Rightarrow>
          if length buf < unat sz then (Inl BufferOverread, w)
          else (case send_sys fd buf (unat sz) w of
                  (sent, w') \<Rightarrow> (Inr (sent = uint sz), w'))
      | _ \<Rightarrow> (Inr True, w))"

text \<open>The eleven assignments that fill the header from the frame.\<close>

definition header_of :: "StreamFrame \<Rightarrow> FrameHeader" where
  "header_of frame =
     \<lparr>hdr_timestamp = timestamp frame, hdr_frame_id = frame_id frame,
      hdr_depth_width = depth_width frame, hdr_depth_height = depth_height frame,
      hdr_depth_size = depth_size frame,
      hdr_rgb_width = rgb_width frame, hdr_rgb_height = rgb_height frame,
      hdr_rgb_size = rgb_size frame,
      hdr_ir_width = ir_width frame, hdr_ir_height = ir_height frame,
      hdr_ir_size = ir_size frame\<rparr>"

text \<open>
  \<open>sendFrameToClient\<close>. Nothing inside its \<open>try\<close> block throws, so the handlers
  of the block are never entered.
\<close>

definition sendFrameToClient ::
  "endian \<Rightarrow> int \<Rightarrow> StreamFrame \<Rightarrow> world \<Rightarrow> (fault + bool) \<times> world" where
  "sendFrameToClient e client_socket frame w =
     (let header = header_of frame
      in case send_sys client_socket (header_bytes e header) sizeof_FrameHeader w of
           (sent, w0) \<Rightarrow>
        if sent \<noteq> int sizeof_FrameHeader then (Inr False, w0)
        else
          (case send_plane client_socket (depth_size frame) (depth_data frame) w0 of
             (Inl f, w1) \<Rightarrow> (Inl f, w1)
           | (Inr False, w1) \<Rightarrow> (Inr False, w1)
           | (Inr True, w1) \<Rightarrow>
          (case send_plane client_socket (rgb_size frame) (rgb_data frame) w1 of
             (Inl f, w2) \<Rightarrow> (Inl f, w2)
           | (Inr False, w2) \<Rightarrow> (Inr False, w2)
           | (Inr True, w2) \<Rightarrow>
          (case send_plane client_socket (ir_size frame) (ir_data frame) w2 of
             (Inl f, w3) \<Rightarrow> (Inl f, w3)
           | (Inr False, w3) \<Rightarrow> (Inr False, w3)
           | (Inr True, w3) \<Rightarrow> (Inr True, w3)))))"

text \<open>
  The reader's side, as section 6 of the specification documents it: a 48-byte header
  with the eleven fields at their offsets, in the byte order of the platform, then
  \<open>depth_size\<close>, \<open>rgb_size\<close> and \<open>ir_size\<close> bytes. The result is the message and
  the bytes after it, or nothing when the input ends too early.
\<close>

record WireFrame =
  wf_timestamp :: u64
  wf_frame_id :: u32
  wf_depth_width :: u32
  wf_depth_height :: u32
  wf_depth_size :: u32
  wf_depth_bytes :: "u8 list"
  wf_rgb_width :: u32
  wf_rgb_height :: u32
  wf_rgb_size :: u32
  wf_rgb_bytes :: "u8 list"
  wf_ir_width :: u32
  wf_ir_height :: u32
  wf_ir_size :: u32
  wf_ir_bytes :: "u8 list"

definition field :: "endian \<Rightarrow> nat \<Rightarrow> nat \<Rightarrow> u8 list \<Rightarrow> 'a::len word" where
  "field e off n bs = of_bytes e (take n (drop off bs))"

definition parse_wire :: "endian \<Rightarrow> u8 list \<Rightarrow> (WireFrame \<times> u8 list) option" where
  "parse_wire e bs =
     (if length bs < 48 then None
      else
        (let ds = field e 20 4 bs :: u32;
             rs = field e 32 4 bs :: u32;
             is = field e 44 4 bs :: u32;
             body = drop 48 bs
         in if length body < unat ds + unat rs + unat is then None
            else Some
              (\<lparr>wf_timestamp = field e 0 8 bs, wf_frame_id = field e 8 4 bs,
                wf_depth_width = field e 12 4 bs, wf_depth_height = field e 16 4 bs,
                wf_depth_size = ds, wf_depth_bytes = take (unat ds) body,
                wf_rgb_width = field e 24 4 bs, wf_rgb_height = field e 28 4 bs,
                wf_rgb_size = rs, wf_rgb_bytes = take (unat rs) (drop (unat ds) body),
                wf_ir_width = field e 36 4 bs, wf_ir_height = field e 40 4 bs,
                wf_ir_size = is,
                wf_ir_bytes = take (unat is) (drop (unat ds + unat rs) body)\<rparr>,
               drop (unat ds + unat rs + unat is) body)))"

text \<open>
  The contents of a plane: the first \<open>size\<close> bytes of its buffer, nothing for a plane
  without a buffer.
\<close>

definition plane_bytes :: "u32 \<Rightarrow> u8 list option \<Rightarrow> u8 list" where
  "plane_bytes sz data = (case data of None \<Rightarrow> [] | Some buf \<Rightarrow> take (unat sz) buf)"

text \<open>
  A plane as the data model of the specification has it: absent, with size 0, or
  present, with a buffer that holds the declared number of bytes.
\<close>

definition plane_ok :: "u32 \<Rightarrow> u8 list option \<Rightarrow> bool" where
  "plane_ok sz data =
     (sz = 0 \<or> (case data of None \<Rightarrow> False | Some buf \<Rightarrow> unat sz \<le> length buf))"

definition frame_ok :: "StreamFrame \<Rightarrow> bool" where
  "frame_ok f =
     (plane_ok (depth_size f) (depth_data f) \<and> plane_ok (rgb_size f) (rgb_data f) \<and>
      plane_ok (ir_size f) (ir_data f))"

section \<open>Lifecycle\<close>

text \<open>
  What the operating system answers to the calls of \<open>start\<close>: the return values of
  \<open>socket\<close>, \<open>setsockopt\<close>, \<open>bind\<close> and \<open>listen\<close>.
\<close>

record os_results =
  socket_ret :: int
  setsockopt_ret :: int
  bind_ret :: int
  listen_ret :: int

text \<open>
  \<open>start\<close>. The accept loop that the new thread runs is not part of the model; the
  event records that the thread was created. Console output is left out.
\<close>

definition start :: "os_results \<Rightarrow> world \<Rightarrow> bool \<times> world" where
  "start os w =
     (if m_running (srv w) then (True, w)
      else
        (let fd = socket_ret os;
             w1 = w\<lparr>srv := (srv w)\<lparr>m_server_socket := fd\<rparr>, trace := trace w @ [EvSocket fd]\<rparr>
         in if fd < 0 then (False, w1)
            else
              (let w2 = w1\<lparr>trace := trace w1 @ [EvSetsockopt fd]\<rparr>
               in if setsockopt_ret os < 0
                  then (False, w2\<lparr>trace := trace w2 @ [EvClose fd]\<rparr>)
                  else
                    (let w3 = w2\<lparr>trace := trace w2 @ [EvBind fd (m_port (srv w2) mod 65536)]\<rparr>
                     in if bind_ret os < 0
                        then (False, w3\<lparr>trace := trace w3 @ [EvClose fd]\<rparr>)
                        else
                          (let w4 = w3\<lparr>trace := trace w3 @ [EvListen fd]\<rparr>
                           in if listen_ret os < 0
                              then (False, w4\<lparr>trace := trace w4 @ [EvClose fd]\<rparr>)
                              else
                                (True,
                                 w4\<lparr>srv := (srv w4)\<lparr>m_running := True, m_server_thread := True\<rparr>,
                                    trace := trace w4 @ [EvSpawnServerThread]\<rparr>))))))"

definition stop :: "world \<Rightarrow> world" where
  "stop w =
     (if \<not> m_running (srv w) then w
      else
        (let w1 = w\<lparr>srv := (srv w)\<lparr>m_running := False\<rparr>\<rparr>;
             w2 = (if m_server_socket (srv w1) \<ge> 0
                   then w1\<lparr>srv := (srv w1)\<lparr>m_server_socket := - 1\<rparr>,
                           trace := trace w1 @ [EvClose (m_server_socket (srv w1))]\<rparr>
                   else w1);
             w3 = (if m_server_thread (srv w2)
                   then w2\<lparr>srv := (srv w2)\<lparr>m_server_thread := False\<rparr>,
                           trace := trace w2 @ [EvJoinServerThread]\<rparr>
                   else w2)
         in w3))"

section \<open>The connection handler\<close>




section \<open>Sequences of calls\<close>

text \<open>A call of \<open>pushFrame\<close>: the clock, the allocator and the raw frame.\<close>

type_synonym push_input = "u64 \<times> allocator \<times> AS_SDK_Data_s option"

fun push_all :: "push_input list \<Rightarrow> PythonStreamServer \<Rightarrow> push_outcome list \<times> PythonStreamServer" where
  "push_all [] s = ([], s)"
| "push_all ((now, al, d) # ins) s =
     (case pushFrame now al d s of
        (out, s') \<Rightarrow> (case push_all ins s' of (outs, s'') \<Rightarrow> (out # outs, s'')))"

text \<open>The frames that a sequence of calls put on the queue, in the order of the calls.\<close>

fun frames_of :: "push_outcome list \<Rightarrow> StreamFrame list" where
  "frames_of [] = []"
| "frames_of (Enqueued f # outs) = f # frames_of outs"
| "frames_of (_ # outs) = frames_of outs"

fun pop_n :: "nat \<Rightarrow> PythonStreamServer \<Rightarrow> StreamFrame option list \<times> PythonStreamServer" where
  "pop_n 0 s = ([], s)"
| "pop_n (Suc n) s =
     (case tryPop s of (r, s') \<Rightarrow> (case pop_n n s' of (rs, s'') \<Rightarrow> (r # rs, s'')))"

text \<open>Calls of \<open>pushFrame\<close> and pops of the connection handlers, in any order.\<close>

datatype queue_op = OpPush u64 allocator "AS_SDK_Data_s option" | OpPop

fun run_ops :: "queue_op list \<Rightarrow> PythonStreamServer \<Rightarrow> PythonStreamServer" where
  "run_ops [] s = s"
| "run_ops (OpPush now al d # ops) s = run_ops ops (snd (pushFrame now al d s))"
| "run_ops (OpPop # ops) s = run_ops ops (snd (tryPop s))"

text \<open>
  A raw frame that \<open>convertToStreamFrame\<close> can copy: every plane with a size above 0
  points to at least that many readable bytes.
\<close>

definition raw_plane_ok :: "AS_Frame_s \<Rightarrow> bool" where
  "raw_plane_ok p =
     (img_size p = 0 \<or> (case img_data p of None \<Rightarrow> False | Some src \<Rightarrow> unat (img_size p) \<le> length src))"

definition raw_ok :: "AS_SDK_Data_s \<Rightarrow> bool" where
  "raw_ok d = (raw_plane_ok (depthImg d) \<and> raw_plane_ok (rgbImg d) \<and> raw_plane_ok (irImg d))"

text \<open>A call of \<open>pushFrame\<close> with a raw frame that can be copied and memory for it.\<close>

fun good_input :: "push_input \<Rightarrow> bool" where
  "good_input (now, al, d) =
     (list_all (\<lambda>ok. ok) al \<and> (case d of None \<Rightarrow> False | Some raw \<Rightarrow> raw_ok raw))"

section \<open>What the claims speak of\<close>

text \<open>
  The history of the frames pushed: the frames that \<open>convertToStreamFrame\<close> makes
  of the raw frames of the pushes, in push order, whatever \<open>pushFrame\<close> then does
  with them. A push with a null raw frame, or one that the conversion does not
  complete, hands over no frame.
\<close>

fun op_frames :: "queue_op list \<Rightarrow> PythonStreamServer \<Rightarrow> StreamFrame list" where
  "op_frames [] s = []"
| "op_frames (OpPush now al None # ops) s = op_frames ops s"
| "op_frames (OpPush now al (Some raw) # ops) s =
     (case convertToStreamFrame now al raw s of
        (Inr f, s') \<Rightarrow> f # op_frames ops s'
      | (Inl e, s') \<Rightarrow> op_frames ops s')"
| "op_frames (OpPop # ops) s = op_frames ops s"

text \<open>
  The number of frames that the buffer of the specification holds after the
  operations when it held \<open>k\<close> before: a push that hands over a frame adds one, up to
  the capacity, and a pop takes one away unless the buffer is empty.
\<close>

fun retained :: "queue_op list \<Rightarrow> PythonStreamServer \<Rightarrow> nat \<Rightarrow> nat" where
  "retained [] s k = k"
| "retained (OpPush now al None # ops) s k = retained ops s k"
| "retained (OpPush now al (Some raw) # ops) s k =
     (case convertToStreamFrame now al raw s of
        (Inr f, s') \<Rightarrow> retained ops s' (min (Suc k) MAX_QUEUE_SIZE)
      | (Inl e, s') \<Rightarrow> retained ops s' k)"
| "retained (OpPop # ops) s k = retained ops s (k - 1)"

text \<open>The clock readings of the pushes, in push order, and pushes that can be served.\<close>

fun op_clocks :: "queue_op list \<Rightarrow> u64 list" where
  "op_clocks [] = []"
| "op_clocks (OpPush now al d # ops) = now # op_clocks ops"
| "op_clocks (OpPop # ops) = op_clocks ops"

fun good_op :: "queue_op \<Rightarrow> bool" where
  "good_op (OpPush now al d) = good_input (now, al, d)"
| "good_op OpPop = True"

text \<open>
  A plane of a frame as \<open>convertToStreamFrame\<close> should leave it for a raw plane
  \<open>p\<close>: a copy of the first \<open>size\<close> bytes when the raw size is above 0, and
  nothing otherwise.
\<close>

definition plane_normalized :: "AS_Frame_s \<Rightarrow> u32 \<Rightarrow> u32 \<Rightarrow> u32 \<Rightarrow> u8 list option \<Rightarrow> bool" where
  "plane_normalized p w h sz data =
     (if img_size p > 0
      then w = img_width p \<and> h = img_height p \<and> sz = img_size p \<and>
           (case (data, img_data p) of
              (Some buf, Some src) \<Rightarrow> length buf = unat sz \<and> buf = take (unat sz) src
            | _ \<Rightarrow> False)
      else w = 0 \<and> h = 0 \<and> sz = 0 \<and> data = None)"

text \<open>
  The number of calls of \<open>new\<close> that a raw frame asks for, and whether one of them
  fails.
\<close>

definition planes_present :: "AS_SDK_Data_s \<Rightarrow> nat" where
  "planes_present d = length (filter (\<lambda>p. img_size p > 0) [depthImg d, rgbImg d, irImg d])"

definition alloc_fails :: "allocator \<Rightarrow> AS_SDK_Data_s \<Rightarrow> bool" where
  "alloc_fails al d = (False \<in> set (take (planes_present d) al))"

text \<open>Small values to run the definitions on.\<close>

definition demo_raw :: AS_SDK_Data_s where
  "demo_raw =
     \<lparr>depthImg = \<lparr>img_width = 2, img_height = 1, img_size = 4, img_data = Some [1, 2, 3, 4]\<rparr>,
      rgbImg = \<lparr>img_width = 0, img_height = 0, img_size = 0, img_data = None\<rparr>,
      irImg = \<lparr>img_width = 1, img_height = 1, img_size = 1, img_data = Some [9]\<rparr>\<rparr>"

definition demo_server :: PythonStreamServer where
  "demo_server = (new_server 8888)\<lparr>m_server_socket := 3, m_running := True, m_server_thread := True\<rparr>"

definition demo_ops :: "queue_op list" where
  "demo_ops =
     [OpPush 1 [] (Some demo_raw), OpPush 2 [] None, OpPush 3 [] (Some demo_raw), OpPop,
      OpPush 4 [False] (Some demo_raw), OpPush 5 [] (Some demo_raw)]"

definition demo_good_ops :: "queue_op list" where
  "demo_good_ops = [OpPush 1 [] (Some demo_raw), OpPush 2 [] (Some demo_raw), OpPop]"

definition demo_pushes :: "push_input list" where
  "demo_pushes =
     [(1, [], Some demo_raw), (2, [], Some demo_raw), (3, [], Some demo_raw),
      (4, [], Some demo_raw), (5, [], Some demo_raw), (6, [], Some demo_raw),
      (7, [], Some demo_raw), (8, [], Some demo_raw), (9, [], Some demo_raw),
      (10, [], Some demo_raw), (11, [], Some demo_raw), (12, [], Some demo_raw)]"

definition demo_inputs :: "push_input list" where
  "demo_inputs = [(7, [], Some demo_raw), (8, [], None), (9, [True], Some demo_raw)]"

definition demo_good :: push_input where
  "demo_good = (7, [], Some demo_raw)"

text \<open>
  A frame whose buffers can be read up to the declared sizes, whatever the sizes of the
  planes without a buffer.
\<close>

definition no_overread :: "StreamFrame \<Rightarrow> bool" where
  "no_overread f =
     ((case depth_data f of None \<Rightarrow> True | Some buf \<Rightarrow> unat (depth_size f) \<le> length buf) \<and>
      (case rgb_data f of None \<Rightarrow> True | Some buf \<Rightarrow> unat (rgb_size f) \<le> length buf) \<and>
      (case ir_data f of None \<Rightarrow> True | Some buf \<Rightarrow> unat (ir_size f) \<le> length buf))"

text \<open>What the reader should obtain from the message of a frame.\<close>

definition wire_frame_of :: "StreamFrame \<Rightarrow> WireFrame" where
  "wire_frame_of f =
     \<lparr>wf_timestamp = timestamp f, wf_frame_id = frame_id f,
      wf_depth_width = depth_width f, wf_depth_height = depth_height f,
      wf_depth_size = depth_size f, wf_depth_bytes = plane_bytes (depth_size f) (depth_data f),
      wf_rgb_width = rgb_width f, wf_rgb_height = rgb_height f,
      wf_rgb_size = rgb_size f, wf_rgb_bytes = plane_bytes (rgb_size f) (rgb_data f),
      wf_ir_width = ir_width f, wf_ir_height = ir_height f,
      wf_ir_size = ir_size f, wf_ir_bytes = plane_bytes (ir_size f) (ir_data f)\<rparr>"

text \<open>The bytes of a frame on the wire when every call of \<open>send\<close> is complete.\<close>

definition message :: "endian \<Rightarrow> StreamFrame \<Rightarrow> u8 list" where
  "message e f =
     header_bytes e (header_of f) @ plane_bytes (depth_size f) (depth_data f) @
     plane_bytes (rgb_size f) (rgb_data f) @ plane_bytes (ir_size f) (ir_data f)"

text \<open>A plane that declares bytes and has no buffer.\<close>

definition null_plane :: "u32 \<Rightarrow> u8 list option \<Rightarrow> bool" where
  "null_plane sz data = (sz > 0 \<and> data = None)"

text \<open>A call of \<open>send\<close> that returned anything but the number of bytes requested.\<close>

definition short_send :: "event \<Rightarrow> bool" where
  "short_send ev = (case ev of EvSend fd len ret \<Rightarrow> ret \<noteq> int len | _ \<Rightarrow> False)"


definition is_listen :: "event \<Rightarrow> bool" where
  "is_listen ev = (case ev of EvListen fd \<Rightarrow> True | _ \<Rightarrow> False)"

text \<open>More values to run the definitions on.\<close>

definition demo_frame :: StreamFrame where
  "demo_frame =
     \<lparr>timestamp = 7, frame_id = 1,
      depth_width = 10, depth_height = 5, depth_size = 100, depth_data = Some (replicate 100 85),
      rgb_width = 0, rgb_height = 0, rgb_size = 0, rgb_data = None,
      ir_width = 0, ir_height = 0, ir_size = 0, ir_data = None\<rparr>"

definition demo_null_frame :: StreamFrame where
  "demo_null_frame = demo_frame\<lparr>rgb_width := 2, rgb_height := 1, rgb_size := 6\<rparr>"

definition demo_world :: world where
  "demo_world = \<lparr>srv = demo_server, wire = (\<lambda>fd. []), script = (\<lambda>fd. []), trace = []\<rparr>"

definition demo_os :: os_results where
  "demo_os = \<lparr>socket_ret = 3, setsockopt_ret = 0, bind_ret = 0, listen_ret = 0\<rparr>"

definition fresh_world :: world where
  "fresh_world = \<lparr>srv = new_server 8888, wire = (\<lambda>fd. []), script = (\<lambda>fd. []), trace = []\<rparr>"

definition demo_converted :: StreamFrame where
  "demo_converted =
     \<lparr>timestamp = 7, frame_id = 1,
      depth_width = 2, depth_height = 1, depth_size = 4, depth_data = Some [1, 2, 3, 4],
      rgb_width = 0, rgb_height = 0, rgb_size = 0, rgb_data = None,
      ir_width = 1, ir_height = 1, ir_size = 1, ir_data = Some [9]\<rparr>"


section \<open>The frame queue\<close>

lemma evict_eq: "evict q = drop (length q - 9) q"
proof (induction q rule: evict.induct)
  case (1 q)
  show ?case
  proof (cases "length q \<ge> MAX_QUEUE_SIZE")
    case True
    then obtain a list where q: "q = a # list" and l: "9 \<le> length list"
      by (cases q) (auto simp: MAX_QUEUE_SIZE_def)
    have "evict q = evict (tl q)" using True by (subst evict.simps) simp
    also have "\<dots> = drop (length (tl q) - 9) (tl q)" using 1 True by simp
    also have "\<dots> = drop (length list - 9) list" by (simp add: q)
    also have "\<dots> = drop (Suc (length list - 9)) (a # list)" by simp
    also have "Suc (length list - 9) = length q - 9" using l by (simp add: q)
    finally show ?thesis by (simp add: q)
  next
    case False
    then show ?thesis by (subst evict.simps) (simp add: MAX_QUEUE_SIZE_def)
  qed
qed

lemma length_evict: "length (evict q) \<le> 9"
  by (simp add: evict_eq)

lemma suffix_evict: "suffix (evict q) q"
  by (simp add: evict_eq suffix_drop)

lemma pushFrame_queue:
  "pushFrame now al d s = (out, s') \<Longrightarrow>
     m_frame_queue s' = (case out of Enqueued f \<Rightarrow> evict (m_frame_queue s) @ [f] | _ \<Rightarrow> m_frame_queue s)"
  by (auto simp: pushFrame_def convertToStreamFrame_def Let_def
           split: if_splits option.splits sum.splits prod.splits)

lemma tryPop_queue: "m_frame_queue (snd (tryPop s)) = tl (m_frame_queue s)"
  by (simp add: tryPop_def split: list.splits)

lemma window_step:
  assumes "length q \<le> 10"
  shows "drop (length (drop (length q - 9) (q @ [f]) @ F) - 10) (drop (length q - 9) (q @ [f]) @ F)
         = drop (length (q @ f # F) - 10) (q @ f # F)"
proof (cases "length q \<le> 9")
  case True
  then show ?thesis by simp
next
  case False
  with assms have l: "length q = 10" by simp
  then obtain x q' where q: "q = x # q'" by (cases q) auto
  with l have l': "length q' = 9" by simp
  show ?thesis by (simp add: q l')
qed

lemma pop_n_queue:
  "fst (pop_n n s) = map Some (take n (m_frame_queue s)) @ replicate (n - length (m_frame_queue s)) None"
proof (induction n arbitrary: s)
  case 0
  show ?case by simp
next
  case (Suc n)
  show ?case
  proof (cases "m_frame_queue s")
    case Nil
    then have t: "tryPop s = (None, s)" by (simp add: tryPop_def)
    show ?thesis using Suc [of s] Nil by (auto simp: t replicate_append_same split: prod.splits)
  next
    case (Cons f q)
    then have t: "tryPop s = (Some f, s\<lparr>m_frame_queue := q\<rparr>)" by (simp add: tryPop_def)
    show ?thesis using Suc [of "s\<lparr>m_frame_queue := q\<rparr>"] Cons by (auto simp: t split: prod.splits)
  qed
qed

section \<open>Normalising a raw frame\<close>

lemma copy_plane_Inr:
  "copy_plane al p = Inr ((w, h, sz, data), al') \<Longrightarrow> plane_normalized p w h sz data"
  by (auto simp: copy_plane_def plane_normalized_def new_array_def
           split: if_splits list.splits option.splits bool.splits)

lemma copy_plane_good:
  assumes "list_all (\<lambda>ok. ok) al" and "raw_plane_ok p"
  shows "\<exists>w h sz data al'. copy_plane al p = Inr ((w, h, sz, data), al') \<and> list_all (\<lambda>ok. ok) al'"
  using assms
  by (cases al) (auto simp: copy_plane_def raw_plane_ok_def new_array_def word_gt_0
           split: option.splits)

lemma convert_counter:
  "convertToStreamFrame now al d s = (r, s') \<Longrightarrow> s' = s\<lparr>m_frame_counter := m_frame_counter s + 1\<rparr>"
  by (auto simp: convertToStreamFrame_def Let_def split: sum.splits prod.splits)

lemma convert_Inr:
  assumes "convertToStreamFrame now al d s = (Inr f, s')"
  shows "timestamp f = now \<and> frame_id f = m_frame_counter s + 1 \<and>
         plane_normalized (depthImg d) (depth_width f) (depth_height f) (depth_size f) (depth_data f) \<and>
         plane_normalized (rgbImg d) (rgb_width f) (rgb_height f) (rgb_size f) (rgb_data f) \<and>
         plane_normalized (irImg d) (ir_width f) (ir_height f) (ir_size f) (ir_data f)"
  using assms
  by (auto simp: convertToStreamFrame_def Let_def dest: copy_plane_Inr split: sum.splits prod.splits)

lemma convert_good:
  assumes "list_all (\<lambda>ok. ok) al" and "raw_ok d"
  shows "\<exists>f. convertToStreamFrame now al d s = (Inr f, s\<lparr>m_frame_counter := m_frame_counter s + 1\<rparr>)"
proof -
  from assms obtain w1 h1 z1 d1 al1 where
    1: "copy_plane al (depthImg d) = Inr ((w1, h1, z1, d1), al1)" and a1: "list_all (\<lambda>ok. ok) al1"
    using copy_plane_good [of al "depthImg d"] by (auto simp: raw_ok_def)
  from assms a1 obtain w2 h2 z2 d2 al2 where
    2: "copy_plane al1 (rgbImg d) = Inr ((w2, h2, z2, d2), al2)" and a2: "list_all (\<lambda>ok. ok) al2"
    using copy_plane_good [of al1 "rgbImg d"] by (auto simp: raw_ok_def)
  from assms a2 obtain w3 h3 z3 d3 al3 where
    3: "copy_plane al2 (irImg d) = Inr ((w3, h3, z3, d3), al3)"
    using copy_plane_good [of al2 "irImg d"] by (auto simp: raw_ok_def)
  show ?thesis by (simp add: convertToStreamFrame_def Let_def 1 2 3)
qed

lemma pushFrame_good:
  assumes "m_running s" and "good_input (now, al, d)"
  shows "\<exists>f. pushFrame now al d s =
           (Enqueued f, s\<lparr>m_frame_counter := m_frame_counter s + 1,
                           m_frame_queue := evict (m_frame_queue s) @ [f]\<rparr>) \<and>
         frame_id f = m_frame_counter s + 1 \<and> timestamp f = now"
proof -
  from assms(2) obtain raw where d: "d = Some raw" and ok: "raw_ok raw" "list_all (\<lambda>ok. ok) al"
    by (cases d) auto
  from convert_good [OF ok(2,1)] obtain f where
    c: "convertToStreamFrame now al raw s = (Inr f, s\<lparr>m_frame_counter := m_frame_counter s + 1\<rparr>)"
    by blast
  from convert_Inr [OF c] have "frame_id f = m_frame_counter s + 1 \<and> timestamp f = now" by simp
  then show ?thesis using assms(1) d c by (simp add: pushFrame_def)
qed

lemma push_all_good:
  "m_running s \<Longrightarrow> list_all good_input ins \<Longrightarrow> push_all ins s = (outs, s') \<Longrightarrow>
   length (m_frame_queue s) \<le> 10 \<Longrightarrow>
   m_running s' \<and> m_frame_counter s' = m_frame_counter s + of_nat (length ins) \<and>
   map frame_id (frames_of outs) = map (\<lambda>i. m_frame_counter s + of_nat i) [1..<Suc (length ins)] \<and>
   m_frame_queue s' =
     drop (length (m_frame_queue s @ frames_of outs) - 10) (m_frame_queue s @ frames_of outs)"
proof (induction ins arbitrary: s outs)
  case Nil
  then show ?case by simp
next
  case (Cons i ins)
  obtain now al d where i: "i = (now, al, d)" by (cases i)
  from Cons.prems(2) i have g: "good_input (now, al, d)" and gs: "list_all good_input ins" by simp_all
  from pushFrame_good [OF Cons.prems(1) g] obtain f where
    p: "pushFrame now al d s = (Enqueued f, s\<lparr>m_frame_counter := m_frame_counter s + 1,
                           m_frame_queue := evict (m_frame_queue s) @ [f]\<rparr>)"
    and fid: "frame_id f = m_frame_counter s + 1" by blast
  let ?s1 = "s\<lparr>m_frame_counter := m_frame_counter s + 1,
                m_frame_queue := evict (m_frame_queue s) @ [f]\<rparr>"
  obtain outs1 where r: "push_all ins ?s1 = (outs1, s')" and outs: "outs = Enqueued f # outs1"
    using Cons.prems(3) i p by (auto split: prod.splits)
  have run1: "m_running ?s1" using Cons.prems(1) by simp
  have l1: "length (m_frame_queue ?s1) \<le> 10" using length_evict [of "m_frame_queue s"] by simp
  note IH = Cons.IH [OF run1 gs r l1]
  have c: "m_frame_counter s' = m_frame_counter s + of_nat (length (i # ins))"
    using IH by (simp add: add.assoc)
  have ids: "map frame_id (frames_of outs) =
        map (\<lambda>i. m_frame_counter s + of_nat i) [1..<Suc (length (i # ins))]"
  proof -
    have "[1..<Suc (length (i # ins))] = 1 # map Suc [1..<Suc (length ins)]"
      by (simp add: upt_conv_Cons map_Suc_upt del: upt_Suc)
    then show ?thesis using IH fid outs by (simp add: o_def add.assoc del: upt_Suc)
  qed
  have q: "m_frame_queue s' =
     drop (length (m_frame_queue s @ frames_of outs) - 10) (m_frame_queue s @ frames_of outs)"
  proof -
    let ?q = "m_frame_queue s" and ?F = "frames_of outs1"
    have "m_frame_queue s' = drop (length ((evict ?q @ [f]) @ ?F) - 10) ((evict ?q @ [f]) @ ?F)"
      using IH by simp
    also have "evict ?q @ [f] = drop (length ?q - 9) (?q @ [f])"
      by (simp add: evict_eq)
    also have "drop (length (drop (length ?q - 9) (?q @ [f]) @ ?F) - 10) (drop (length ?q - 9) (?q @ [f]) @ ?F)
         = drop (length (?q @ f # ?F) - 10) (?q @ f # ?F)"
      using Cons.prems(4) by (rule window_step)
    finally show ?thesis by (simp add: outs)
  qed
  from IH c ids q show ?case by simp
qed

lemma pushFrame_counter:
  assumes "pushFrame now al d s = (out, s')"
  shows "(m_frame_counter s' = m_frame_counter s \<or> m_frame_counter s' = m_frame_counter s + 1) \<and>
         (\<forall>f. out = Enqueued f \<longrightarrow> frame_id f = m_frame_counter s + 1 \<and>
                m_frame_counter s' = m_frame_counter s + 1)"
proof (cases "\<not> m_running s \<or> d = None")
  case True
  with assms show ?thesis by (auto simp: pushFrame_def)
next
  case False
  then obtain raw where d: "d = Some raw" and r: "m_running s" by auto
  obtain res s1 where c: "convertToStreamFrame now al raw s = (res, s1)"
    by (cases "convertToStreamFrame now al raw s")
  note s1 = convert_counter [OF c]
  show ?thesis
  proof (cases res)
    case (Inl e)
    with assms d r c s1 show ?thesis by (auto simp: pushFrame_def)
  next
    case (Inr f)
    with c have "frame_id f = m_frame_counter s + 1" using convert_Inr by blast
    with assms d r c s1 Inr show ?thesis by (auto simp: pushFrame_def)
  qed
qed

lemma push_all_ids:
  "push_all ins s = (outs, s') \<Longrightarrow> unat (m_frame_counter s) + length ins < 2 ^ 32 \<Longrightarrow>
   m_frame_counter s \<le> m_frame_counter s' \<and>
   unat (m_frame_counter s') \<le> unat (m_frame_counter s) + length ins \<and>
   (\<forall>f \<in> set (frames_of outs). m_frame_counter s < frame_id f \<and> frame_id f \<le> m_frame_counter s') \<and>
   sorted_wrt (<) (map frame_id (frames_of outs))"
proof (induction ins arbitrary: s outs)
  case Nil
  then show ?case by simp
next
  case (Cons i ins)
  obtain now al d where i: "i = (now, al, d)" by (cases i)
  obtain out s1 where p: "pushFrame now al d s = (out, s1)" by (cases "pushFrame now al d s")
  obtain outs1 where r: "push_all ins s1 = (outs1, s')" and outs: "outs = out # outs1"
    using Cons.prems(1) i p by (auto split: prod.splits)
  note pc = pushFrame_counter [OF p]
  have nowrap: "unat (m_frame_counter s) + 1 < 2 ^ 32" using Cons.prems(2) by simp
  then have u1: "unat (m_frame_counter s + 1) = unat (m_frame_counter s) + 1"
    by (simp add: unat_add_lem [THEN iffD1])
  have step: "m_frame_counter s \<le> m_frame_counter s1 \<and>
              unat (m_frame_counter s1) \<le> unat (m_frame_counter s) + 1"
    using pc u1 by (auto simp: word_le_nat_alt)
  then have "unat (m_frame_counter s1) + length ins < 2 ^ 32" using Cons.prems(2) by simp
  note IH = Cons.IH [OF r this]
  have le: "m_frame_counter s \<le> m_frame_counter s'" using step IH by auto
  have ub: "unat (m_frame_counter s') \<le> unat (m_frame_counter s) + length (i # ins)"
    using step IH by simp
  have rest: "\<forall>f \<in> set (frames_of outs1). m_frame_counter s < frame_id f \<and> frame_id f \<le> m_frame_counter s'"
    using step IH by auto
  show ?case
  proof (cases "\<exists>f. out = Enqueued f")
    case True
    then obtain f where out: "out = Enqueued f" by blast
    with pc have fid: "frame_id f = m_frame_counter s + 1" and c1: "m_frame_counter s1 = m_frame_counter s + 1"
      by auto
    have lt: "m_frame_counter s < frame_id f" using fid u1 by (simp add: word_less_nat_alt)
    have "frame_id f \<le> m_frame_counter s'" using IH fid c1 by simp
    moreover have "\<forall>g \<in> set (frames_of outs1). frame_id f < frame_id g" using IH fid c1 by auto
    ultimately show ?thesis using le ub rest lt IH by (simp add: outs out)
  next
    case False
    then have "frames_of outs = frames_of outs1" using outs by (cases out) auto
    then show ?thesis using le ub rest IH by simp
  qed
qed

lemma list_all_replicate: "list_all P (replicate n x) = (n = 0 \<or> P x)"
  by (induction n) auto

lemma good_demo: "good_input demo_good"
  by (simp add: demo_good_def raw_ok_def raw_plane_ok_def demo_raw_def)

lemma push_all_good_nth:
  assumes "m_running s" and "list_all good_input ins" and "length (m_frame_queue s) \<le> 10"
    and "k < length ins"
  shows "frame_id (frames_of (fst (push_all ins s)) ! k) = m_frame_counter s + of_nat (Suc k)"
proof -
  have p: "push_all ins s = (fst (push_all ins s), snd (push_all ins s))" by simp
  from push_all_good [OF assms(1,2) p assms(3)]
  have ids: "map frame_id (frames_of (fst (push_all ins s))) =
             map (\<lambda>i. m_frame_counter s + of_nat i) [1..<Suc (length ins)]" by blast
  then have len: "length (frames_of (fst (push_all ins s))) = length ins"
    by (metis length_map length_upt diff_Suc_1)
  have "frame_id (frames_of (fst (push_all ins s)) ! k) = map frame_id (frames_of (fst (push_all ins s))) ! k"
    using assms(4) len by simp
  also have "\<dots> = m_frame_counter s + of_nat (Suc k)"
    using assms(4) by (simp only: ids) (simp del: upt_Suc)
  finally show ?thesis .
qed

lemma copy_plane_cases:
  assumes "raw_plane_ok p"
  shows "copy_plane al p =
     (if img_size p > 0 then
        (case al of
           [] \<Rightarrow> Inr ((img_width p, img_height p, img_size p,
                       Some (take (unat (img_size p)) (the (img_data p)))), [])
         | ok # rest \<Rightarrow>
             if ok then Inr ((img_width p, img_height p, img_size p,
                       Some (take (unat (img_size p)) (the (img_data p)))), rest)
             else Inl BadAlloc)
      else Inr ((0, 0, 0, None), al))"
  using assms
  by (auto simp: copy_plane_def raw_plane_ok_def new_array_def split: list.splits option.splits)

lemma convert_alloc_fails:
  assumes "raw_ok raw" and "alloc_fails al raw"
  shows "fst (convertToStreamFrame now al raw s) = Inl BadAlloc"
proof -
  from assms(1) have ok: "raw_plane_ok (depthImg raw)" "raw_plane_ok (rgbImg raw)" "raw_plane_ok (irImg raw)"
    by (simp_all add: raw_ok_def)
  show ?thesis
    using assms(2)
    by (cases al; cases "tl al"; cases "tl (tl al)")
       (auto simp: convertToStreamFrame_def Let_def copy_plane_cases [OF ok(1)]
          copy_plane_cases [OF ok(2)] copy_plane_cases [OF ok(3)] alloc_fails_def planes_present_def
          split: if_splits)
qed

section \<open>Bytes of the header\<close>

lemma length_word_to_le [simp]: "length (word_to_le n w) = n"
  by (induction n arbitrary: w) auto

lemma le_roundtrip:
  "le_to_word (word_to_le n (w::'a::len word)) = (take_bit (8 * n) w :: 'a word)"
proof (induction n arbitrary: w)
  case 0
  show ?case by simp
next
  case (Suc n)
  show ?case
    apply (simp add: Suc)
    apply (rule bit_eqI)
    apply (auto simp add: bit_simps)
    done
qed

lemma length_to_bytes [simp]: "length (to_bytes e n w) = n"
  by (cases e) (simp_all add: to_bytes_def)

lemma of_to_bytes32 [simp]: "of_bytes e (to_bytes e 4 (w::u32)) = w"
  by (cases e) (simp_all add: to_bytes_def of_bytes_def le_roundtrip take_bit_word_eq_self)

lemma of_to_bytes64 [simp]: "of_bytes e (to_bytes e 8 (w::u64)) = w"
  by (cases e) (simp_all add: to_bytes_def of_bytes_def le_roundtrip take_bit_word_eq_self)

lemma length_header_bytes [simp]: "length (header_bytes e h) = 48"
  by (simp add: header_bytes_def)

lemma field_header:
  "field e 0 8 (header_bytes e h @ rest) = hdr_timestamp h"
  "field e 8 4 (header_bytes e h @ rest) = hdr_frame_id h"
  "field e 12 4 (header_bytes e h @ rest) = hdr_depth_width h"
  "field e 16 4 (header_bytes e h @ rest) = hdr_depth_height h"
  "field e 20 4 (header_bytes e h @ rest) = hdr_depth_size h"
  "field e 24 4 (header_bytes e h @ rest) = hdr_rgb_width h"
  "field e 28 4 (header_bytes e h @ rest) = hdr_rgb_height h"
  "field e 32 4 (header_bytes e h @ rest) = hdr_rgb_size h"
  "field e 36 4 (header_bytes e h @ rest) = hdr_ir_width h"
  "field e 40 4 (header_bytes e h @ rest) = hdr_ir_height h"
  "field e 44 4 (header_bytes e h @ rest) = hdr_ir_size h"
  by (simp_all add: field_def header_bytes_def)

section \<open>Sending\<close>

text \<open>What a call of \<open>send\<close> does to the world, by its return value.\<close>

lemma send_sys_cases:
  assumes "send_sys fd buf len w = (sent, w')"
  shows "trace w' = trace w @ [EvSend fd len sent] \<and>
         (\<forall>fd'. fd' \<noteq> fd \<longrightarrow> wire w' fd' = wire w fd' \<and> script w' fd' = script w fd') \<and>
         srv w' = srv w \<and>
         (sent = int len \<longrightarrow> wire w' fd = wire w fd @ take len buf)"
proof (cases "script w fd")
  case Nil
  with assms show ?thesis by (auto simp: send_sys_def)
next
  case (Cons r rest)
  with assms show ?thesis
    by (auto simp: send_sys_def Let_def min_def split: if_splits)
qed

lemma send_sys_accepting:
  assumes "script w fd = []"
  shows "send_sys fd buf len w =
           (int len, w\<lparr>wire := (wire w)(fd := wire w fd @ take len buf),
                        trace := trace w @ [EvSend fd len (int len)]\<rparr>)"
  using assms by (simp add: send_sys_def)

lemma send_plane_cases:
  assumes "send_plane fd sz data w = (r, w')"
  shows "srv w' = srv w \<and>
         (\<forall>fd'. fd' \<noteq> fd \<longrightarrow> wire w' fd' = wire w fd' \<and> script w' fd' = script w fd') \<and>
         (\<exists>evs. trace w' = trace w @ evs \<and> length evs \<le> 1 \<and>
                (list_ex short_send evs \<longleftrightarrow> r = Inr False)) \<and>
         (r = Inr True \<longrightarrow> wire w' fd = wire w fd @ plane_bytes sz data)"
proof (cases "sz > 0 \<and> data \<noteq> None")
  case False
  with assms show ?thesis
    by (auto simp: send_plane_def plane_bytes_def word_gt_0 split: option.splits bool.splits)
next
  case True
  then obtain buf where d: "data = Some buf" and z: "sz > 0" by auto
  show ?thesis
  proof (cases "length buf < unat sz")
    case True
    with assms d z show ?thesis by (auto simp: send_plane_def)
  next
    case False
    obtain sent w1 where s: "send_sys fd buf (unat sz) w = (sent, w1)"
      by (cases "send_sys fd buf (unat sz) w")
    from assms d z False s have r: "r = Inr (sent = uint sz)" and w': "w' = w1"
      by (auto simp: send_plane_def)
    note c = send_sys_cases [OF s]
    have u: "int (unat sz) = uint sz" by simp
    have ev: "trace w' = trace w @ [EvSend fd (unat sz) sent] \<and> length [EvSend fd (unat sz) sent] \<le> 1 \<and>
          (list_ex short_send [EvSend fd (unat sz) sent] \<longleftrightarrow> r = Inr False)"
      using c r w' by (auto simp: short_send_def)
    have "r = Inr True \<longrightarrow> wire w' fd = wire w fd @ plane_bytes sz data"
      using c r w' d z by (auto simp: plane_bytes_def)
    with c w' ev show ?thesis by blast
  qed
qed

lemma send_plane_accepting:
  assumes "script w fd = []" and "case data of None \<Rightarrow> True | Some buf \<Rightarrow> unat sz \<le> length buf"
  shows "fst (send_plane fd sz data w) = Inr True \<and>
         script (snd (send_plane fd sz data w)) fd = []"
  using assms
  by (auto simp: send_plane_def send_sys_accepting split: option.splits bool.splits)

lemma send_True:
  assumes "sendFrameToClient e fd f w = (Inr True, w')"
  shows "wire w' fd = wire w fd @ message e f"
proof -
  obtain sent w0 where h: "send_sys fd (header_bytes e (header_of f)) sizeof_FrameHeader w = (sent, w0)"
    by (cases "send_sys fd (header_bytes e (header_of f)) sizeof_FrameHeader w")
  obtain r1 w1 where p1: "send_plane fd (depth_size f) (depth_data f) w0 = (r1, w1)"
    by (cases "send_plane fd (depth_size f) (depth_data f) w0")
  obtain r2 w2 where p2: "send_plane fd (rgb_size f) (rgb_data f) w1 = (r2, w2)"
    by (cases "send_plane fd (rgb_size f) (rgb_data f) w1")
  obtain r3 w3 where p3: "send_plane fd (ir_size f) (ir_data f) w2 = (r3, w3)"
    by (cases "send_plane fd (ir_size f) (ir_data f) w2")
  from assms h p1 p2 p3
  have ok: "sent = int sizeof_FrameHeader" "r1 = Inr True" "r2 = Inr True" "r3 = Inr True" "w' = w3"
    by (auto simp: sendFrameToClient_def Let_def split: if_splits sum.splits bool.splits)
  from send_sys_cases [OF h] ok(1)
  have a0: "wire w0 fd = wire w fd @ header_bytes e (header_of f)"
    by (simp add: sizeof_FrameHeader_def)
  from send_plane_cases [OF p1] ok(2)
  have a1: "wire w1 fd = wire w0 fd @ plane_bytes (depth_size f) (depth_data f)" by blast
  from send_plane_cases [OF p2] ok(3)
  have a2: "wire w2 fd = wire w1 fd @ plane_bytes (rgb_size f) (rgb_data f)" by blast
  from send_plane_cases [OF p3] ok(4)
  have a3: "wire w3 fd = wire w2 fd @ plane_bytes (ir_size f) (ir_data f)" by blast
  show ?thesis by (simp add: ok(5) a0 a1 a2 a3 message_def)
qed

lemma send_accepting:
  assumes "script w fd = []" and "no_overread f"
  shows "fst (sendFrameToClient e fd f w) = Inr True"
proof -
  let ?w0 = "w\<lparr>wire := (wire w)(fd := wire w fd @ take sizeof_FrameHeader (header_bytes e (header_of f))),
                trace := trace w @ [EvSend fd sizeof_FrameHeader (int sizeof_FrameHeader)]\<rparr>"
  have h: "send_sys fd (header_bytes e (header_of f)) sizeof_FrameHeader w = (int sizeof_FrameHeader, ?w0)"
    using assms(1) by (rule send_sys_accepting)
  have s0: "script ?w0 fd = []" using assms(1) by simp
  from assms(2) have o: "case depth_data f of None \<Rightarrow> True | Some buf \<Rightarrow> unat (depth_size f) \<le> length buf"
    "case rgb_data f of None \<Rightarrow> True | Some buf \<Rightarrow> unat (rgb_size f) \<le> length buf"
    "case ir_data f of None \<Rightarrow> True | Some buf \<Rightarrow> unat (ir_size f) \<le> length buf"
    by (simp_all add: no_overread_def)
  obtain r1 w1 where p1: "send_plane fd (depth_size f) (depth_data f) ?w0 = (r1, w1)"
    by (cases "send_plane fd (depth_size f) (depth_data f) ?w0")
  from send_plane_accepting [OF s0 o(1)] p1 have r1: "r1 = Inr True" and s1: "script w1 fd = []"
    by simp_all
  obtain r2 w2 where p2: "send_plane fd (rgb_size f) (rgb_data f) w1 = (r2, w2)"
    by (cases "send_plane fd (rgb_size f) (rgb_data f) w1")
  from send_plane_accepting [OF s1 o(2)] p2 have r2: "r2 = Inr True" and s2: "script w2 fd = []"
    by simp_all
  obtain r3 w3 where p3: "send_plane fd (ir_size f) (ir_data f) w2 = (r3, w3)"
    by (cases "send_plane fd (ir_size f) (ir_data f) w2")
  from send_plane_accepting [OF s2 o(3)] p3 have r3: "r3 = Inr True" by simp
  show ?thesis
    by (simp add: sendFrameToClient_def Let_def h p1 r1 p2 r2 p3 r3)
qed

lemma length_plane_bytes:
  assumes "plane_ok sz data"
  shows "length (plane_bytes sz data) = unat sz"
  using assms by (auto simp: plane_ok_def plane_bytes_def split: option.splits)

lemma frame_ok_no_overread: "frame_ok f \<Longrightarrow> no_overread f"
  by (auto simp: frame_ok_def plane_ok_def no_overread_def split: option.splits)

lemma parse_message:
  assumes "frame_ok f"
  shows "parse_wire e (message e f @ rest) = Some (wire_frame_of f, rest)"
proof -
  let ?h = "header_of f"
  let ?d = "plane_bytes (depth_size f) (depth_data f)"
  let ?r = "plane_bytes (rgb_size f) (rgb_data f)"
  let ?i = "plane_bytes (ir_size f) (ir_data f)"
  from assms have d: "length ?d = unat (depth_size f)" and r: "length ?r = unat (rgb_size f)"
    and i: "length ?i = unat (ir_size f)"
    by (simp_all add: frame_ok_def length_plane_bytes)
  have m: "message e f @ rest = header_bytes e ?h @ (?d @ ?r @ ?i @ rest)"
    by (simp add: message_def)
  have sizes: "(field e 20 4 (message e f @ rest) :: u32) = depth_size f"
    "(field e 32 4 (message e f @ rest) :: u32) = rgb_size f"
    "(field e 44 4 (message e f @ rest) :: u32) = ir_size f"
    by (simp_all only: m field_header) (simp_all add: header_of_def)
  have others: "(field e 0 8 (message e f @ rest) :: u64) = timestamp f"
    "(field e 8 4 (message e f @ rest) :: u32) = frame_id f"
    "(field e 12 4 (message e f @ rest) :: u32) = depth_width f"
    "(field e 16 4 (message e f @ rest) :: u32) = depth_height f"
    "(field e 24 4 (message e f @ rest) :: u32) = rgb_width f"
    "(field e 28 4 (message e f @ rest) :: u32) = rgb_height f"
    "(field e 36 4 (message e f @ rest) :: u32) = ir_width f"
    "(field e 40 4 (message e f @ rest) :: u32) = ir_height f"
    by (simp_all only: m field_header) (simp_all add: header_of_def)
  have body: "drop 48 (message e f @ rest) = ?d @ ?r @ ?i @ rest"
    by (simp only: m) simp
  have len: "\<not> length (message e f @ rest) < 48" by (simp only: m) simp
  show ?thesis
    unfolding parse_wire_def Let_def sizes others body
    using len by (simp add: d r i wire_frame_of_def)
qed

lemma send_accepting_message:
  assumes "script w fd = []" and "no_overread f"
  shows "fst (sendFrameToClient e fd f w) = Inr True \<and>
         wire (snd (sendFrameToClient e fd f w)) fd = wire w fd @ message e f"
proof -
  from send_accepting [OF assms] have "fst (sendFrameToClient e fd f w) = Inr True" .
  then have "sendFrameToClient e fd f w = (Inr True, snd (sendFrameToClient e fd f w))"
    by (metis prod.collapse)
  from send_True [OF this] \<open>fst (sendFrameToClient e fd f w) = Inr True\<close> show ?thesis by simp
qed

lemma demo_frame_ok: "frame_ok demo_frame"
  by (simp add: frame_ok_def plane_ok_def demo_frame_def)

lemma plane_normalized_not_null:
  "plane_normalized p w h sz data \<Longrightarrow> \<not> null_plane sz data \<and> plane_ok sz data"
  by (auto simp: plane_normalized_def null_plane_def plane_ok_def split: if_splits option.splits)

lemma length_plane_bytes_le:
  "case data of None \<Rightarrow> True | Some buf \<Rightarrow> unat sz \<le> length buf \<Longrightarrow>
   length (plane_bytes sz data) \<le> unat sz"
  by (auto simp: plane_bytes_def split: option.splits)

lemma length_plane_bytes_null:
  "null_plane sz data \<Longrightarrow> length (plane_bytes sz data) < unat sz"
  by (auto simp: plane_bytes_def null_plane_def word_less_nat_alt)





section \<open>The loop of the connection handler\<close>




lemma start_demo:
  "start demo_os fresh_world =
     (True, \<lparr>srv = demo_server, wire = (\<lambda>fd. []), script = (\<lambda>fd. []),
             trace = [EvSocket 3, EvSetsockopt 3, EvBind 3 8888, EvListen 3, EvSpawnServerThread]\<rparr>)"
  by (simp add: start_def demo_os_def fresh_world_def new_server_def demo_server_def Let_def)

lemma demo_convert:
  "convertToStreamFrame 7 [] demo_raw demo_server =
     (Inr demo_converted, demo_server\<lparr>m_frame_counter := 1\<rparr>)"
  by (simp add: convertToStreamFrame_def copy_plane_def new_array_def demo_raw_def demo_server_def
       demo_converted_def new_server_def Let_def)





section \<open>The queue against the history of the pushes\<close>

lemma convert_queue:
  "convertToStreamFrame now al raw (t\<lparr>m_frame_queue := q\<rparr>) =
     (fst (convertToStreamFrame now al raw t),
      (snd (convertToStreamFrame now al raw t))\<lparr>m_frame_queue := q\<rparr>)"
  by (simp add: convertToStreamFrame_def Let_def split: sum.splits prod.splits)

lemma convert_running:
  "m_running (snd (convertToStreamFrame now al raw t)) = m_running t"
  by (simp add: convertToStreamFrame_def Let_def split: sum.splits prod.splits)

lemma length_evict_snoc:
  assumes "length q \<le> 10"
  shows "length (evict q @ [f]) = min (Suc (length q)) MAX_QUEUE_SIZE"
  using assms by (auto simp: evict_eq MAX_QUEUE_SIZE_def)

lemma suffix_evict_snoc:
  assumes "suffix q H"
  shows "suffix (evict q @ [f]) (H @ [f])"
proof -
  from suffix_evict assms have "suffix (evict q) H" by (rule suffix_order.trans)
  then show ?thesis by simp
qed

lemma run_ops_bound:
  "length (m_frame_queue s) \<le> 10 \<Longrightarrow> length (m_frame_queue (run_ops ops s)) \<le> 10"
proof (induction ops arbitrary: s)
  case Nil
  then show ?case by simp
next
  case (Cons op ops)
  show ?case
  proof (cases op)
    case (OpPush now al d)
    obtain out s1 where p: "pushFrame now al d s = (out, s1)" by (cases "pushFrame now al d s")
    have "length (m_frame_queue s1) \<le> 10"
      using pushFrame_queue [OF p] length_evict [of "m_frame_queue s"] Cons.prems
      by (cases out) auto
    from Cons.IH [OF this] OpPush p show ?thesis by simp
  next
    case OpPop
    have "length (m_frame_queue (snd (tryPop s))) \<le> 10"
      using Cons.prems by (simp add: tryPop_queue)
    from Cons.IH [OF this] OpPop show ?thesis by simp
  qed
qed

lemma run_ops_exact:
  "m_running t \<Longrightarrow> length q \<le> 10 \<Longrightarrow> suffix q H \<Longrightarrow>
   suffix (m_frame_queue (run_ops ops (t\<lparr>m_frame_queue := q\<rparr>))) (H @ op_frames ops t) \<and>
   length (m_frame_queue (run_ops ops (t\<lparr>m_frame_queue := q\<rparr>))) = retained ops t (length q)"
proof (induction ops arbitrary: t q H)
  case Nil
  then show ?case by simp
next
  case (Cons op ops)
  show ?case
  proof (cases op)
    case OpPop
    have 1: "length (tl q) \<le> 10" using Cons.prems(2) by simp
    have "suffix (tl q) q" by (simp add: suffix_tl)
    from this Cons.prems(3) have 2: "suffix (tl q) H" by (rule suffix_order.trans)
    have st: "snd (tryPop (t\<lparr>m_frame_queue := q\<rparr>)) = t\<lparr>m_frame_queue := tl q\<rparr>"
      by (cases q) (simp_all add: tryPop_def)
    from Cons.IH [OF Cons.prems(1) 1 2] show ?thesis by (simp add: OpPop st)
  next
    case (OpPush now al d)
    show ?thesis
    proof (cases d)
      case None
      have st: "snd (pushFrame now al None (t\<lparr>m_frame_queue := q\<rparr>)) = t\<lparr>m_frame_queue := q\<rparr>"
        by (simp add: pushFrame_def)
      from Cons.IH [OF Cons.prems] show ?thesis by (simp add: OpPush None st)
    next
      case (Some raw)
      obtain res t' where c: "convertToStreamFrame now al raw t = (res, t')"
        by (cases "convertToStreamFrame now al raw t")
      from convert_running [of now al raw t] c Cons.prems(1) have run: "m_running t'" by simp
      have cq: "convertToStreamFrame now al raw (t\<lparr>m_frame_queue := q\<rparr>) =
                  (res, t'\<lparr>m_frame_queue := q\<rparr>)"
        by (simp add: convert_queue c)
      show ?thesis
      proof (cases res)
        case (Inl e)
        have st: "snd (pushFrame now al (Some raw) (t\<lparr>m_frame_queue := q\<rparr>)) = t'\<lparr>m_frame_queue := q\<rparr>"
          using Cons.prems(1) by (simp add: pushFrame_def cq Inl)
        from Cons.IH [OF run Cons.prems(2,3)] show ?thesis
          by (simp add: OpPush Some st c Inl)
      next
        case (Inr f)
        have st: "snd (pushFrame now al (Some raw) (t\<lparr>m_frame_queue := q\<rparr>)) =
                    t'\<lparr>m_frame_queue := evict q @ [f]\<rparr>"
          using Cons.prems(1) by (simp add: pushFrame_def cq Inr)
        have 1: "length (evict q @ [f]) \<le> 10" using length_evict [of q] by simp
        note 2 = suffix_evict_snoc [OF Cons.prems(3), of f]
        from Cons.IH [OF run 1 2] show ?thesis
          by (simp add: OpPush Some st c Inr length_evict_snoc [OF Cons.prems(2)]
                del: length_append)
      qed
    qed
  qed
qed

lemma suffix_length_drop:
  assumes "suffix xs ys" and "length xs = k"
  shows "xs = drop (length ys - k) ys"
proof -
  from assms(1) obtain zs where "ys = zs @ xs" by (auto simp: suffix_def)
  with assms(2) show ?thesis by simp
qed

lemma op_frames_clocks:
  "list_all good_op ops \<Longrightarrow> map timestamp (op_frames ops t) = op_clocks ops"
proof (induction ops arbitrary: t)
  case Nil
  show ?case by simp
next
  case (Cons op ops)
  show ?case
  proof (cases op)
    case OpPop
    with Cons show ?thesis by simp
  next
    case (OpPush now al d)
    with Cons.prems obtain raw where d: "d = Some raw" and ok: "raw_ok raw" "list_all (\<lambda>ok. ok) al"
      by (cases d) auto
    from convert_good [OF ok(2,1)] obtain f where
      c: "convertToStreamFrame now al raw t = (Inr f, t\<lparr>m_frame_counter := m_frame_counter t + 1\<rparr>)"
      by blast
    from convert_Inr [OF c] have ts: "timestamp f = now" by simp
    from Cons.prems have "list_all good_op ops" by simp
    from Cons.IH [OF this] show ?thesis by (simp add: OpPush d c ts)
  qed
qed

lemma push_all_clocks:
  "m_running s \<Longrightarrow> list_all good_input ins \<Longrightarrow>
   map timestamp (frames_of (fst (push_all ins s))) = map fst ins"
proof (induction ins arbitrary: s)
  case Nil
  show ?case by simp
next
  case (Cons i ins)
  obtain now al d where i: "i = (now, al, d)" by (cases i)
  from Cons.prems(2) i have g: "good_input (now, al, d)" and gs: "list_all good_input ins" by simp_all
  from pushFrame_good [OF Cons.prems(1) g] obtain f where
    p: "pushFrame now al d s = (Enqueued f, s\<lparr>m_frame_counter := m_frame_counter s + 1,
                           m_frame_queue := evict (m_frame_queue s) @ [f]\<rparr>)"
    and ts: "timestamp f = now" by blast
  let ?s1 = "s\<lparr>m_frame_counter := m_frame_counter s + 1,
                m_frame_queue := evict (m_frame_queue s) @ [f]\<rparr>"
  have "m_running ?s1" using Cons.prems(1) by simp
  from Cons.IH [OF this gs] show ?case by (auto simp: i p ts split: prod.splits)
qed

lemma demo_history:
  "map timestamp (op_frames demo_ops demo_server) = [1, 3, 5]"
  "retained demo_ops demo_server 0 = 2"
  by (simp_all add: demo_ops_def demo_server_def new_server_def demo_raw_def
        convertToStreamFrame_def copy_plane_def new_array_def MAX_QUEUE_SIZE_def Let_def)

lemma good_demo_pushes: "list_all good_input demo_pushes"
  by (simp add: demo_pushes_def raw_ok_def raw_plane_ok_def demo_raw_def)

section \<open>Claims about the frame queue\<close>

text \<open>
  Claim C2. Start from an empty queue and run any sequence of calls of \<open>pushFrame\<close>
  and pops. The queue then holds at most 10 frames. On a running server it holds
  exactly the frames pushed last, in push order: the last \<open>retained\<close> frames of the
  history of the pushes, where the history is made from the raw frames of the calls
  and not from what \<open>pushFrame\<close> did with them, and \<open>retained\<close> counts one more
  for every push that hands over a frame, up to 10, and one less for every pop. Every
  push that can be served is in the history with its clock reading. After pushes only,
  all of which can be served, the queue holds the last 10 of them, or all of them
  while they are fewer: the oldest frames are the ones dropped.
\<close>

theorem queue_bounded_most_recent:
  assumes "m_frame_queue s = []"
  shows "length (m_frame_queue (run_ops ops s)) \<le> MAX_QUEUE_SIZE \<and>
         (m_running s \<longrightarrow>
            m_frame_queue (run_ops ops s) =
              drop (length (op_frames ops s) - retained ops s 0) (op_frames ops s) \<and>
            length (m_frame_queue (run_ops ops s)) = retained ops s 0) \<and>
         (m_running s \<and> list_all good_op good_ops \<longrightarrow>
            map timestamp (op_frames good_ops s) = op_clocks good_ops) \<and>
         (m_running s \<and> list_all good_input ins \<longrightarrow>
            map timestamp (m_frame_queue (snd (push_all ins s))) =
              drop (length ins - MAX_QUEUE_SIZE) (map fst ins))"
proof (intro conjI impI)
  have "length (m_frame_queue s) \<le> 10" using assms by simp
  then show "length (m_frame_queue (run_ops ops s)) \<le> MAX_QUEUE_SIZE"
    unfolding MAX_QUEUE_SIZE_def by (rule run_ops_bound)
next
  assume run: "m_running s"
  have s: "s\<lparr>m_frame_queue := []\<rparr> = s" using assms by simp
  have "suffix (m_frame_queue (run_ops ops (s\<lparr>m_frame_queue := []\<rparr>))) ([] @ op_frames ops s) \<and>
        length (m_frame_queue (run_ops ops (s\<lparr>m_frame_queue := []\<rparr>))) = retained ops s (length ([] :: StreamFrame list))"
    using run by (intro run_ops_exact) simp_all
  then have e: "suffix (m_frame_queue (run_ops ops s)) (op_frames ops s)"
    and l: "length (m_frame_queue (run_ops ops s)) = retained ops s 0"
    by (simp_all add: s)
  from e l show "m_frame_queue (run_ops ops s) =
      drop (length (op_frames ops s) - retained ops s 0) (op_frames ops s)"
    by (rule suffix_length_drop)
  from l show "length (m_frame_queue (run_ops ops s)) = retained ops s 0" .
next
  assume "m_running s \<and> list_all good_op good_ops"
  then show "map timestamp (op_frames good_ops s) = op_clocks good_ops"
    by (simp add: op_frames_clocks)
next
  assume a: "m_running s \<and> list_all good_input ins"
  have l: "length (m_frame_queue s) \<le> 10" using assms by simp
  have p: "push_all ins s = (fst (push_all ins s), snd (push_all ins s))" by simp
  from a have run: "m_running s" and g: "list_all good_input ins" by simp_all
  note c = push_all_clocks [OF run g]
  then have len: "length (frames_of (fst (push_all ins s))) = length ins"
    by (metis length_map)
  from push_all_good [OF run g p l] assms
  have "m_frame_queue (snd (push_all ins s)) =
          drop (length (frames_of (fst (push_all ins s))) - 10) (frames_of (fst (push_all ins s)))"
    by simp
  then have "map timestamp (m_frame_queue (snd (push_all ins s))) =
          drop (length ins - 10) (map timestamp (frames_of (fst (push_all ins s))))"
    by (simp only: len drop_map)
  then show "map timestamp (m_frame_queue (snd (push_all ins s))) =
              drop (length ins - MAX_QUEUE_SIZE) (map fst ins)"
    by (simp only: c MAX_QUEUE_SIZE_def)
qed


theorem queue_bounded_most_recent_witness:
  "m_frame_queue demo_server = [] \<and> m_running demo_server \<and>
   list_all good_op demo_good_ops \<and> list_all good_input demo_pushes \<and>
   length (m_frame_queue (run_ops demo_ops demo_server)) \<le> MAX_QUEUE_SIZE \<and>
   op_clocks demo_ops = [1, 2, 3, 4, 5] \<and>
   map timestamp (op_frames demo_ops demo_server) = [1, 3, 5] \<and>
   map timestamp (m_frame_queue (run_ops demo_ops demo_server)) = [3, 5] \<and>
   map timestamp (op_frames demo_good_ops demo_server) = [1, 2] \<and>
   map timestamp (m_frame_queue (snd (push_all demo_pushes demo_server))) =
     [3, 4, 5, 6, 7, 8, 9, 10, 11, 12]"
proof -
  have h: "m_frame_queue demo_server = []" and r: "m_running demo_server"
    by (simp_all add: demo_server_def new_server_def)
  have g: "list_all good_op demo_good_ops"
    by (simp add: demo_good_ops_def raw_ok_def raw_plane_ok_def demo_raw_def)
  note p = good_demo_pushes
  note t = queue_bounded_most_recent [OF h, of demo_ops demo_good_ops demo_pushes]
  from t have b: "length (m_frame_queue (run_ops demo_ops demo_server)) \<le> MAX_QUEUE_SIZE"
    by blast
  have c: "op_clocks demo_ops = [1, 2, 3, 4, 5]" by (simp add: demo_ops_def)
  from t r have "m_frame_queue (run_ops demo_ops demo_server) =
      drop (length (op_frames demo_ops demo_server) - retained demo_ops demo_server 0)
           (op_frames demo_ops demo_server)" by blast
  then have "map timestamp (m_frame_queue (run_ops demo_ops demo_server)) =
      drop (length (map timestamp (op_frames demo_ops demo_server)) - retained demo_ops demo_server 0)
           (map timestamp (op_frames demo_ops demo_server))"
    by (simp only: drop_map length_map)
  then have q: "map timestamp (m_frame_queue (run_ops demo_ops demo_server)) = [3, 5]"
    by (simp only: demo_history) simp
  from t r g have "map timestamp (op_frames demo_good_ops demo_server) = op_clocks demo_good_ops"
    by blast
  then have k: "map timestamp (op_frames demo_good_ops demo_server) = [1, 2]"
    by (simp add: demo_good_ops_def)
  from t r p have "map timestamp (m_frame_queue (snd (push_all demo_pushes demo_server))) =
      drop (length demo_pushes - MAX_QUEUE_SIZE) (map fst demo_pushes)" by blast
  then have m: "map timestamp (m_frame_queue (snd (push_all demo_pushes demo_server))) =
     [3, 4, 5, 6, 7, 8, 9, 10, 11, 12]"
    by (simp add: demo_pushes_def MAX_QUEUE_SIZE_def)
  from h r g p b c demo_history(1) q k m show ?thesis by blast
qed

text \<open>
  Claim C3. On a running server with an empty queue and the counter at 0, pushing
  \<open>N \<le> 10\<close> frames gives them the ids \<open>1..N\<close>, and \<open>N + 1\<close> pops then return
  the ids \<open>1, 2, ..., N\<close> and after them nothing. A queue filled by 10 pushes holds
  the ids \<open>1..10\<close>, and one more push leaves it with exactly the ids \<open>2..11\<close>.
\<close>

theorem fifo_drop_oldest:
  assumes "m_running s" and "m_frame_queue s = []" and "m_frame_counter s = 0"
    and "list_all good_input ins" and "length ins \<le> 10"
    and "list_all good_input full" and "length full = 10" and "good_input i"
  shows "map (map_option frame_id) (fst (pop_n (Suc (length ins)) (snd (push_all ins s)))) =
           map (\<lambda>k. Some (of_nat k)) [1..<Suc (length ins)] @ [None] \<and>
         map frame_id (m_frame_queue (snd (push_all full s))) = map of_nat [1..<11] \<and>
         map frame_id (m_frame_queue (snd (push_all (full @ [i]) s))) = map of_nat [2..<12]"
proof -
  have l: "length (m_frame_queue s) \<le> 10" using assms(2) by simp
  have after: "map frame_id (frames_of (fst (push_all xs s))) = map of_nat [1..<Suc (length xs)] \<and>
        m_frame_queue (snd (push_all xs s)) =
          drop (length xs - 10) (frames_of (fst (push_all xs s)))"
    if g: "list_all good_input xs" for xs
  proof -
    have p: "push_all xs s = (fst (push_all xs s), snd (push_all xs s))" by simp
    from push_all_good [OF assms(1) g p l] assms(2,3)
    have ids: "map frame_id (frames_of (fst (push_all xs s))) = map of_nat [1..<Suc (length xs)]"
      and q: "m_frame_queue (snd (push_all xs s)) =
           drop (length (frames_of (fst (push_all xs s))) - 10) (frames_of (fst (push_all xs s)))"
      by simp_all
    from ids have "length (frames_of (fst (push_all xs s))) = length xs"
      by (metis length_map length_upt diff_Suc_1)
    with ids q show ?thesis by simp
  qed
  have A: "map (map_option frame_id) (fst (pop_n (Suc (length ins)) (snd (push_all ins s)))) =
           map (\<lambda>k. Some (of_nat k)) [1..<Suc (length ins)] @ [None]"
  proof -
    from after [OF assms(4)] assms(5)
    have ids: "map frame_id (frames_of (fst (push_all ins s))) = map of_nat [1..<Suc (length ins)]"
      and q: "m_frame_queue (snd (push_all ins s)) = frames_of (fst (push_all ins s))"
      by simp_all
    from ids have len: "length (frames_of (fst (push_all ins s))) = length ins"
      by (metis length_map length_upt diff_Suc_1)
    have "map (map_option frame_id) (fst (pop_n (Suc (length ins)) (snd (push_all ins s)))) =
          map Some (map frame_id (frames_of (fst (push_all ins s)))) @ [None]"
      by (simp add: pop_n_queue q len o_def del: pop_n.simps)
    then show ?thesis by (simp add: ids o_def del: upt_Suc)
  qed
  have B: "map frame_id (m_frame_queue (snd (push_all full s))) = map of_nat [1..<11]"
    using after [OF assms(6)] assms(7) by (simp del: upt_Suc)
  have C: "map frame_id (m_frame_queue (snd (push_all (full @ [i]) s))) = map of_nat [2..<12]"
  proof -
    have g: "list_all good_input (full @ [i])" using assms(6,8) by simp
    have n: "length (full @ [i]) = 11" using assms(7) by simp
    from after [OF g]
    have ids: "map frame_id (frames_of (fst (push_all (full @ [i]) s))) = map of_nat [1..<Suc 11]"
      and q: "m_frame_queue (snd (push_all (full @ [i]) s)) =
              drop (11 - 10) (frames_of (fst (push_all (full @ [i]) s)))"
      by (simp_all only: n)
    have "map frame_id (m_frame_queue (snd (push_all (full @ [i]) s))) =
          drop (11 - 10) (map frame_id (frames_of (fst (push_all (full @ [i]) s))))"
      by (simp only: q drop_map)
    also have "\<dots> = map of_nat (drop (11 - 10) [1..<Suc 11])"
      by (simp only: ids drop_map)
    also have "drop (11 - 10) [1..<Suc 11] = drop 1 [1..<12]"
      by (simp del: upt_Suc)
    also have "drop 1 [1..<12] = [2..<12::nat]" by (simp only: drop_upt one_add_one)
    finally show ?thesis .
  qed
  from A B C show ?thesis by blast
qed

theorem fifo_drop_oldest_witness:
  "m_running demo_server \<and> m_frame_queue demo_server = [] \<and> m_frame_counter demo_server = 0 \<and>
   list_all good_input [demo_good, demo_good] \<and> length [demo_good, demo_good] \<le> 10 \<and>
   list_all good_input (replicate 10 demo_good) \<and> length (replicate 10 demo_good) = 10 \<and>
   good_input demo_good \<and>
   map (map_option frame_id) (fst (pop_n 3 (snd (push_all [demo_good, demo_good] demo_server)))) =
     [Some 1, Some 2, None] \<and>
   map frame_id (m_frame_queue (snd (push_all (replicate 10 demo_good) demo_server))) =
     [1, 2, 3, 4, 5, 6, 7, 8, 9, 10] \<and>
   map frame_id (m_frame_queue (snd (push_all (replicate 10 demo_good @ [demo_good]) demo_server))) =
     [2, 3, 4, 5, 6, 7, 8, 9, 10, 11]"
proof -
  have h1: "m_running demo_server" and h2: "m_frame_queue demo_server = []"
    and h3: "m_frame_counter demo_server = 0"
    by (simp_all add: demo_server_def new_server_def)
  have h4: "list_all good_input [demo_good, demo_good]" by (simp add: good_demo)
  have h5: "length [demo_good, demo_good] \<le> 10" by simp
  have h6: "list_all good_input (replicate 10 demo_good)" by (simp add: list_all_replicate good_demo)
  have h7: "length (replicate 10 demo_good) = 10" by simp
  note t = fifo_drop_oldest [OF h1 h2 h3 h4 h5 h6 h7 good_demo]
  have u: "[1..<3] = [1, 2::nat]" "[1..<11] = [1, 2, 3, 4, 5, 6, 7, 8, 9, 10::nat]"
    "[2..<12] = [2, 3, 4, 5, 6, 7, 8, 9, 10, 11::nat]"
    by (simp_all add: upt_conv_Cons)
  have n: "Suc (length [demo_good, demo_good]) = 3" by simp
  from t have c1: "map (map_option frame_id) (fst (pop_n 3 (snd (push_all [demo_good, demo_good] demo_server)))) =
     [Some 1, Some 2, None]"
    by (simp only: n u) simp
  from t have c2: "map frame_id (m_frame_queue (snd (push_all (replicate 10 demo_good) demo_server))) =
     [1, 2, 3, 4, 5, 6, 7, 8, 9, 10]"
    by (simp only: u) simp
  from t have c3: "map frame_id (m_frame_queue (snd (push_all (replicate 10 demo_good @ [demo_good]) demo_server))) =
     [2, 3, 4, 5, 6, 7, 8, 9, 10, 11]"
    by (simp only: u) simp
  from h1 h2 h3 h4 h5 h6 h7 good_demo c1 c2 c3 show ?thesis by blast
qed

section \<open>Claims about ingestion\<close>

text \<open>
  Claim C7, amended. \<open>frame_id\<close> is the value of the 32-bit member
  \<open>m_frame_counter\<close> after its increment. Over a sequence of calls of \<open>pushFrame\<close>
  during which the counter does not pass \<open>2^32 - 1\<close>, the ids of the frames put on the
  queue are strictly increasing and pairwise different, each above the counter before
  the sequence and at most the counter after it.
\<close>

theorem frame_ids_increase_until_wrap:
  assumes "unat (m_frame_counter s) + length ins < 2 ^ 32"
  shows "sorted_wrt (<) (map frame_id (frames_of (fst (push_all ins s)))) \<and>
         distinct (map frame_id (frames_of (fst (push_all ins s)))) \<and>
         (\<forall>f \<in> set (frames_of (fst (push_all ins s))).
            m_frame_counter s < frame_id f \<and> frame_id f \<le> m_frame_counter (snd (push_all ins s)))"
proof -
  have p: "push_all ins s = (fst (push_all ins s), snd (push_all ins s))" by simp
  note i = push_all_ids [OF p assms]
  then have "sorted_wrt (<) (map frame_id (frames_of (fst (push_all ins s))))" by blast
  then have "distinct (map frame_id (frames_of (fst (push_all ins s))))"
    using strict_sorted_iff by auto
  with i show ?thesis by blast
qed

theorem frame_ids_increase_until_wrap_witness:
  "unat (m_frame_counter demo_server) + length demo_inputs < 2 ^ 32 \<and>
   sorted_wrt (<) (map frame_id (frames_of (fst (push_all demo_inputs demo_server)))) \<and>
   distinct (map frame_id (frames_of (fst (push_all demo_inputs demo_server)))) \<and>
   list_all (\<lambda>f. m_frame_counter demo_server < frame_id f \<and>
                  frame_id f \<le> m_frame_counter (snd (push_all demo_inputs demo_server)))
     (frames_of (fst (push_all demo_inputs demo_server)))"
proof -
  have h: "unat (m_frame_counter demo_server) + length demo_inputs < 2 ^ 32"
    by (simp add: demo_server_def new_server_def demo_inputs_def)
  show ?thesis using h frame_ids_increase_until_wrap [OF h] by (simp only: list_all_iff) blast
qed

text \<open>
  As the claim is written it fails where the counter wraps around: of \<open>2^32\<close> frames
  pushed to a new, running server, the frame before the last has the id \<open>2^32 - 1\<close>
  and the last one the id 0.
\<close>

theorem frame_id_wraps_counterexample:
  "\<not> frame_id (frames_of (fst (push_all (replicate 4294967296 demo_good) demo_server)) ! 4294967294)
     < frame_id (frames_of (fst (push_all (replicate 4294967296 demo_good) demo_server)) ! 4294967295)"
proof -
  have h1: "m_running demo_server" and h2: "length (m_frame_queue demo_server) \<le> 10"
    and h3: "m_frame_counter demo_server = 0"
    by (simp_all add: demo_server_def new_server_def)
  have g: "list_all good_input (replicate 4294967296 demo_good)"
    by (simp only: list_all_replicate good_demo) simp
  have k1: "(4294967294::nat) < length (replicate 4294967296 demo_good)"
    and k2: "(4294967295::nat) < length (replicate 4294967296 demo_good)"
    by simp_all
  have a: "frame_id (frames_of (fst (push_all (replicate 4294967296 demo_good) demo_server)) ! 4294967294)
           = 4294967295"
    by (simp only: push_all_good_nth [OF h1 g h2 k1] h3) simp
  have b: "frame_id (frames_of (fst (push_all (replicate 4294967296 demo_good) demo_server)) ! 4294967295)
           = 0"
    by (simp only: push_all_good_nth [OF h1 g h2 k2] h3) simp
  show ?thesis by (simp only: a b) simp
qed

text \<open>
  Claim C8. For a raw frame whose planes can be read, and with memory for the copies,
  \<open>convertToStreamFrame\<close> returns a frame in which every plane with a raw size above
  0 carries the raw width, height and size and a buffer of exactly \<open>size\<close> bytes equal
  to the first \<open>size\<close> bytes of the raw plane, and every other plane has width, height
  and size 0 and no buffer.
\<close>

theorem normalize_planes:
  assumes "raw_ok d" and "list_all (\<lambda>ok. ok) al"
  shows "\<exists>f. convertToStreamFrame now al d s = (Inr f, s\<lparr>m_frame_counter := m_frame_counter s + 1\<rparr>) \<and>
         plane_normalized (depthImg d) (depth_width f) (depth_height f) (depth_size f) (depth_data f) \<and>
         plane_normalized (rgbImg d) (rgb_width f) (rgb_height f) (rgb_size f) (rgb_data f) \<and>
         plane_normalized (irImg d) (ir_width f) (ir_height f) (ir_size f) (ir_data f)"
proof -
  from convert_good [OF assms(2,1)] obtain f where
    c: "convertToStreamFrame now al d s = (Inr f, s\<lparr>m_frame_counter := m_frame_counter s + 1\<rparr>)"
    by blast
  from convert_Inr [OF c] c show ?thesis by blast
qed

theorem normalize_planes_witness:
  "raw_ok demo_raw \<and> list_all (\<lambda>ok. ok) [True, True] \<and>
   (\<exists>f. convertToStreamFrame 7 [True, True] demo_raw demo_server =
           (Inr f, demo_server\<lparr>m_frame_counter := m_frame_counter demo_server + 1\<rparr>) \<and>
      plane_normalized (depthImg demo_raw) (depth_width f) (depth_height f) (depth_size f) (depth_data f) \<and>
      plane_normalized (rgbImg demo_raw) (rgb_width f) (rgb_height f) (rgb_size f) (rgb_data f) \<and>
      plane_normalized (irImg demo_raw) (ir_width f) (ir_height f) (ir_size f) (ir_data f))"
proof -
  have h1: "raw_ok demo_raw" by (simp add: raw_ok_def raw_plane_ok_def demo_raw_def)
  have h2: "list_all (\<lambda>ok. ok) [True, True]" by simp
  show ?thesis using h1 h2 normalize_planes [OF h1 h2, of 7 demo_server] by blast
qed

text \<open>
  Claim C5, amended. With a null raw frame, or a server that is not running,
  \<open>pushFrame\<close> returns at its guard and changes nothing. When an allocation for a
  plane fails, \<open>pushFrame\<close> does not return normally: \<open>std::bad_alloc\<close> leaves it
  towards the caller; the queue is as before, and the frame counter has been incremented.
\<close>

theorem pushFrame_ingestion_failures:
  "(\<not> m_running s \<or> d = None \<longrightarrow> pushFrame now al d s = (Ignored, s)) \<and>
   (m_running s \<and> raw_ok raw \<and> alloc_fails al' raw \<longrightarrow>
      pushFrame now al' (Some raw) s =
        (Raised BadAlloc, s\<lparr>m_frame_counter := m_frame_counter s + 1\<rparr>))"
proof (intro conjI impI)
  assume "\<not> m_running s \<or> d = None"
  then show "pushFrame now al d s = (Ignored, s)" by (auto simp: pushFrame_def)
next
  assume a: "m_running s \<and> raw_ok raw \<and> alloc_fails al' raw"
  obtain r s1 where c: "convertToStreamFrame now al' raw s = (r, s1)"
    by (cases "convertToStreamFrame now al' raw s")
  from convert_alloc_fails [of raw al' now s] a c have r: "r = Inl BadAlloc" by simp
  from convert_counter [OF c] have "s1 = s\<lparr>m_frame_counter := m_frame_counter s + 1\<rparr>" .
  with a c r show "pushFrame now al' (Some raw) s =
        (Raised BadAlloc, s\<lparr>m_frame_counter := m_frame_counter s + 1\<rparr>)"
    by (simp add: pushFrame_def)
qed

theorem pushFrame_ingestion_failures_witness:
  "m_running demo_server \<and>
   pushFrame 7 [] None demo_server = (Ignored, demo_server) \<and>
   raw_ok demo_raw \<and> alloc_fails [True, False] demo_raw \<and>
   pushFrame 7 [True, False] (Some demo_raw) demo_server =
     (Raised BadAlloc, demo_server\<lparr>m_frame_counter := m_frame_counter demo_server + 1\<rparr>)"
proof -
  have h1: "\<not> m_running demo_server \<or> (None :: AS_SDK_Data_s option) = None" by simp
  have h2: "m_running demo_server \<and> raw_ok demo_raw \<and> alloc_fails [True, False] demo_raw"
    by (simp add: demo_server_def new_server_def raw_ok_def raw_plane_ok_def demo_raw_def
         alloc_fails_def planes_present_def)
  show ?thesis
    using h1 h2 pushFrame_ingestion_failures [of demo_server None 7 "[]" demo_raw "[True, False]"]
    by blast
qed

text \<open>
  As the claim is written it fails for a failed allocation: the call is left by an
  exception and the state of the server has changed.
\<close>

theorem pushFrame_bad_alloc_counterexample:
  "fst (pushFrame 7 [False] (Some demo_raw) demo_server) = Raised BadAlloc \<and>
   snd (pushFrame 7 [False] (Some demo_raw) demo_server) \<noteq> demo_server"
  by (simp add: pushFrame_def convertToStreamFrame_def copy_plane_def new_array_def demo_raw_def
       demo_server_def new_server_def Let_def)

section \<open>Claims about the wire protocol\<close>

text \<open>
  Claim C1. Take a frame in which every plane is absent (size 0) or present (a buffer
  of at least \<open>size\<close> bytes). On a socket that accepts every write
  \<open>sendFrameToClient\<close> reports success; and whenever it reports success, the bytes
  it has put on the wire, read as section 6 of the specification documents, give back
  the timestamp, the frame id, the width, height and size of every plane and the bytes
  of every plane, and leave what follows the message unread.
\<close>

theorem serialize_parse_roundtrip:
  assumes "frame_ok f"
  shows "(script w fd = [] \<longrightarrow> fst (sendFrameToClient e fd f w) = Inr True) \<and>
         (fst (sendFrameToClient e fd f w) = Inr True \<longrightarrow>
            (\<exists>msg. wire (snd (sendFrameToClient e fd f w)) fd = wire w fd @ msg \<and>
                   parse_wire e (msg @ rest) = Some (wire_frame_of f, rest)))"
proof (intro conjI impI)
  assume "script w fd = []"
  then show "fst (sendFrameToClient e fd f w) = Inr True"
    using assms by (simp add: send_accepting frame_ok_no_overread)
next
  assume "fst (sendFrameToClient e fd f w) = Inr True"
  then have "sendFrameToClient e fd f w = (Inr True, snd (sendFrameToClient e fd f w))"
    by (metis prod.collapse)
  from send_True [OF this] parse_message [OF assms, of e rest]
  show "\<exists>msg. wire (snd (sendFrameToClient e fd f w)) fd = wire w fd @ msg \<and>
              parse_wire e (msg @ rest) = Some (wire_frame_of f, rest)"
    by blast
qed

theorem serialize_parse_roundtrip_witness:
  "frame_ok demo_frame \<and> script demo_world 5 = [] \<and>
   fst (sendFrameToClient LittleEndian 5 demo_frame demo_world) = Inr True \<and>
   (\<exists>msg. wire (snd (sendFrameToClient LittleEndian 5 demo_frame demo_world)) 5 = wire demo_world 5 @ msg \<and>
          parse_wire LittleEndian (msg @ [1, 2, 3]) = Some (wire_frame_of demo_frame, [1, 2, 3]))"
proof -
  have h: "script demo_world 5 = []" by (simp add: demo_world_def)
  show ?thesis
    using h demo_frame_ok
      serialize_parse_roundtrip [OF demo_frame_ok, of demo_world 5 LittleEndian "[1, 2, 3]"]
    by blast
qed

text \<open>
  Claim C4. On a socket that accepts every write, the message of a frame is 48 bytes
  of header and then the bytes of the planes in the order depth, RGB, IR: the header
  holds the timestamp in the bytes 0 to 7 and then, four bytes each, the frame id, the
  width, height and size of the depth plane, of the RGB plane and of the IR plane. A
  frame with a depth plane of 100 bytes and no other plane gives 148 bytes, with 0 in
  the two other size fields.
\<close>

theorem header_layout:
  assumes "script w fd = []" and "frame_ok f"
  shows "\<exists>msg. fst (sendFrameToClient e fd f w) = Inr True \<and>
           wire (snd (sendFrameToClient e fd f w)) fd = wire w fd @ msg \<and>
           length msg = 48 + unat (depth_size f) + unat (rgb_size f) + unat (ir_size f) \<and>
           field e 0 8 msg = timestamp f \<and> field e 8 4 msg = frame_id f \<and>
           field e 12 4 msg = depth_width f \<and> field e 16 4 msg = depth_height f \<and>
           field e 20 4 msg = depth_size f \<and>
           field e 24 4 msg = rgb_width f \<and> field e 28 4 msg = rgb_height f \<and>
           field e 32 4 msg = rgb_size f \<and>
           field e 36 4 msg = ir_width f \<and> field e 40 4 msg = ir_height f \<and>
           field e 44 4 msg = ir_size f \<and>
           drop 48 msg = plane_bytes (depth_size f) (depth_data f) @
                         plane_bytes (rgb_size f) (rgb_data f) @ plane_bytes (ir_size f) (ir_data f) \<and>
           (depth_size f = 100 \<and> rgb_size f = 0 \<and> ir_size f = 0 \<longrightarrow>
              length msg = 148 \<and> (field e 32 4 msg :: u32) = 0 \<and> (field e 44 4 msg :: u32) = 0)"
proof -
  let ?msg = "message e f"
  let ?body = "plane_bytes (depth_size f) (depth_data f) @
               plane_bytes (rgb_size f) (rgb_data f) @ plane_bytes (ir_size f) (ir_data f)"
  note s = send_accepting_message [OF assms(1) frame_ok_no_overread [OF assms(2)], of e]
  have m: "?msg = header_bytes e (header_of f) @ ?body" by (simp add: message_def)
  from assms(2) have len: "length ?msg = 48 + unat (depth_size f) + unat (rgb_size f) + unat (ir_size f)"
    by (simp add: m frame_ok_def length_plane_bytes)
  have fields: "field e 0 8 ?msg = timestamp f" "field e 8 4 ?msg = frame_id f"
    "field e 12 4 ?msg = depth_width f" "field e 16 4 ?msg = depth_height f"
    "field e 20 4 ?msg = depth_size f"
    "field e 24 4 ?msg = rgb_width f" "field e 28 4 ?msg = rgb_height f"
    "field e 32 4 ?msg = rgb_size f"
    "field e 36 4 ?msg = ir_width f" "field e 40 4 ?msg = ir_height f"
    "field e 44 4 ?msg = ir_size f"
    by (simp_all only: m field_header) (simp_all add: header_of_def)
  have body: "drop 48 ?msg = ?body" by (simp only: m) simp
  have scen: "depth_size f = 100 \<and> rgb_size f = 0 \<and> ir_size f = 0 \<longrightarrow>
              length ?msg = 148 \<and> (field e 32 4 ?msg :: u32) = 0 \<and> (field e 44 4 ?msg :: u32) = 0"
    using len fields by simp
  from s len fields body scen show ?thesis by blast
qed

theorem header_layout_witness:
  "script demo_world 5 = [] \<and> frame_ok demo_frame \<and>
   depth_size demo_frame = 100 \<and> rgb_size demo_frame = 0 \<and> ir_size demo_frame = 0 \<and>
   fst (sendFrameToClient LittleEndian 5 demo_frame demo_world) = Inr True \<and>
   length (wire (snd (sendFrameToClient LittleEndian 5 demo_frame demo_world)) 5) = 148 \<and>
   (field LittleEndian 32 4 (wire (snd (sendFrameToClient LittleEndian 5 demo_frame demo_world)) 5) :: u32) = 0 \<and>
   (field LittleEndian 44 4 (wire (snd (sendFrameToClient LittleEndian 5 demo_frame demo_world)) 5) :: u32) = 0"
proof -
  have h: "script demo_world 5 = []" and w: "wire demo_world 5 = []" by (simp_all add: demo_world_def)
  have z: "depth_size demo_frame = 100 \<and> rgb_size demo_frame = 0 \<and> ir_size demo_frame = 0"
    by (simp add: demo_frame_def)
  from header_layout [OF h demo_frame_ok, of LittleEndian] z w
  have "fst (sendFrameToClient LittleEndian 5 demo_frame demo_world) = Inr True \<and>
   length (wire (snd (sendFrameToClient LittleEndian 5 demo_frame demo_world)) 5) = 148 \<and>
   (field LittleEndian 32 4 (wire (snd (sendFrameToClient LittleEndian 5 demo_frame demo_world)) 5) :: u32) = 0 \<and>
   (field LittleEndian 44 4 (wire (snd (sendFrameToClient LittleEndian 5 demo_frame demo_world)) 5) :: u32) = 0"
    by auto
  with h demo_frame_ok z show ?thesis by blast
qed

text \<open>
  Claim C10. When a plane of a frame declares a size above 0 and has no buffer, while
  the buffers that are there can be read, \<open>sendFrameToClient\<close> on a socket that
  accepts every write reports success; the header it sends declares the sizes of the
  frame, the plane without a buffer contributes no byte, and so fewer than 48 plus the
  declared sizes bytes are sent. No frame that \<open>convertToStreamFrame\<close> returns has such
  a plane.
\<close>

theorem null_plane_sends_header_only:
  assumes "script w fd = []" and "no_overread f"
    and "null_plane (depth_size f) (depth_data f) \<or> null_plane (rgb_size f) (rgb_data f) \<or>
         null_plane (ir_size f) (ir_data f)"
    and "convertToStreamFrame now al d s = (Inr g, s')"
  shows "(\<exists>msg. fst (sendFrameToClient e fd f w) = Inr True \<and>
            wire (snd (sendFrameToClient e fd f w)) fd = wire w fd @ msg \<and>
            field e 20 4 msg = depth_size f \<and> field e 32 4 msg = rgb_size f \<and>
            field e 44 4 msg = ir_size f \<and>
            drop 48 msg = plane_bytes (depth_size f) (depth_data f) @
                          plane_bytes (rgb_size f) (rgb_data f) @ plane_bytes (ir_size f) (ir_data f) \<and>
            plane_bytes (depth_size f) None = [] \<and>
            length msg < 48 + unat (depth_size f) + unat (rgb_size f) + unat (ir_size f)) \<and>
         \<not> null_plane (depth_size g) (depth_data g) \<and> \<not> null_plane (rgb_size g) (rgb_data g) \<and>
         \<not> null_plane (ir_size g) (ir_data g)"
proof -
  let ?msg = "message e f"
  let ?d = "plane_bytes (depth_size f) (depth_data f)"
  let ?r = "plane_bytes (rgb_size f) (rgb_data f)"
  let ?i = "plane_bytes (ir_size f) (ir_data f)"
  note s = send_accepting_message [OF assms(1,2), of e]
  have m: "?msg = header_bytes e (header_of f) @ (?d @ ?r @ ?i)" by (simp add: message_def)
  have fields: "field e 20 4 ?msg = depth_size f" "field e 32 4 ?msg = rgb_size f"
    "field e 44 4 ?msg = ir_size f"
    by (simp_all only: m field_header) (simp_all add: header_of_def)
  have body: "drop 48 ?msg = ?d @ ?r @ ?i" by (simp only: m) simp
  from assms(2) have le: "length ?d \<le> unat (depth_size f)" "length ?r \<le> unat (rgb_size f)"
    "length ?i \<le> unat (ir_size f)"
    by (simp_all add: no_overread_def length_plane_bytes_le)
  from assms(3) have "length ?d < unat (depth_size f) \<or> length ?r < unat (rgb_size f) \<or>
      length ?i < unat (ir_size f)"
    using length_plane_bytes_null by blast
  with le have len: "length ?msg < 48 + unat (depth_size f) + unat (rgb_size f) + unat (ir_size f)"
    by (auto simp: m)
  have e: "plane_bytes (depth_size f) None = []" by (simp add: plane_bytes_def)
  from convert_Inr [OF assms(4)]
  have g: "\<not> null_plane (depth_size g) (depth_data g) \<and> \<not> null_plane (rgb_size g) (rgb_data g) \<and>
         \<not> null_plane (ir_size g) (ir_data g)"
    using plane_normalized_not_null by blast
  from s fields body len e g show ?thesis by blast
qed

theorem null_plane_sends_header_only_witness:
  "script demo_world 5 = [] \<and> no_overread demo_null_frame \<and>
   null_plane (rgb_size demo_null_frame) (rgb_data demo_null_frame) \<and>
   depth_size demo_null_frame = 100 \<and> rgb_size demo_null_frame = 6 \<and> ir_size demo_null_frame = 0 \<and>
   convertToStreamFrame 7 [] demo_raw demo_server =
     (Inr demo_converted, demo_server\<lparr>m_frame_counter := 1\<rparr>) \<and>
   fst (sendFrameToClient BigEndian 5 demo_null_frame demo_world) = Inr True \<and>
   length (wire (snd (sendFrameToClient BigEndian 5 demo_null_frame demo_world)) 5) < 48 + 100 + 6 + 0 \<and>
   (field BigEndian 32 4 (wire (snd (sendFrameToClient BigEndian 5 demo_null_frame demo_world)) 5) :: u32) = 6 \<and>
   \<not> null_plane (depth_size demo_converted) (depth_data demo_converted) \<and>
   \<not> null_plane (rgb_size demo_converted) (rgb_data demo_converted) \<and>
   \<not> null_plane (ir_size demo_converted) (ir_data demo_converted)"
proof -
  have h1: "script demo_world 5 = []" and w: "wire demo_world 5 = []" by (simp_all add: demo_world_def)
  have h2: "no_overread demo_null_frame"
    by (simp add: no_overread_def demo_null_frame_def demo_frame_def)
  have n: "null_plane (rgb_size demo_null_frame) (rgb_data demo_null_frame)"
    by (simp add: null_plane_def demo_null_frame_def demo_frame_def)
  then have h3: "null_plane (depth_size demo_null_frame) (depth_data demo_null_frame) \<or>
      null_plane (rgb_size demo_null_frame) (rgb_data demo_null_frame) \<or>
      null_plane (ir_size demo_null_frame) (ir_data demo_null_frame)" by blast
  have z: "depth_size demo_null_frame = 100" "rgb_size demo_null_frame = 6" "ir_size demo_null_frame = 0"
    by (simp_all add: demo_null_frame_def demo_frame_def)
  note c = demo_convert
  from null_plane_sends_header_only [OF h1 h2 h3 c, of BigEndian] z w
  have "fst (sendFrameToClient BigEndian 5 demo_null_frame demo_world) = Inr True \<and>
   length (wire (snd (sendFrameToClient BigEndian 5 demo_null_frame demo_world)) 5) < 48 + 100 + 6 + 0 \<and>
   (field BigEndian 32 4 (wire (snd (sendFrameToClient BigEndian 5 demo_null_frame demo_world)) 5) :: u32) = 6 \<and>
   \<not> null_plane (depth_size demo_converted) (depth_data demo_converted) \<and>
   \<not> null_plane (rgb_size demo_converted) (rgb_data demo_converted) \<and>
   \<not> null_plane (ir_size demo_converted) (ir_data demo_converted)"
    by auto
  with h1 h2 n z c show ?thesis by blast
qed

section \<open>Claims about the connection handler and the lifecycle\<close>




text \<open>
  Claim C9. \<open>start\<close> on a running server returns \<open>true\<close> and changes nothing, and
  makes no system call; \<open>stop\<close> on a server that is not running changes nothing. So
  a second \<open>start\<close> after a successful one succeeds too and leaves the one listening
  socket that the first one made.
\<close>

theorem lifecycle_idempotent:
  assumes "m_running (srv w)" and "\<not> m_running (srv w')"
    and "\<not> m_running (srv w0)" and "fst (start os w0)"
  shows "start os' w = (True, w) \<and> stop w' = w' \<and>
         start os' (snd (start os w0)) = (True, snd (start os w0)) \<and>
         length (filter is_listen (trace (snd (start os' (snd (start os w0)))))) =
           length (filter is_listen (trace w0)) + 1"
proof -
  have a: "start os' w = (True, w)" using assms(1) by (simp add: start_def)
  have b: "stop w' = w'" using assms(2) by (simp add: stop_def)
  from assms(3,4) have run: "m_running (srv (snd (start os w0)))"
    and tr: "length (filter is_listen (trace (snd (start os w0)))) = length (filter is_listen (trace w0)) + 1"
    by (auto simp: start_def Let_def is_listen_def split: if_splits)
  from run have c: "start os' (snd (start os w0)) = (True, snd (start os w0))" by (simp add: start_def)
  from a b c tr show ?thesis by simp
qed

theorem lifecycle_idempotent_witness:
  "m_running (srv (snd (start demo_os fresh_world))) \<and> \<not> m_running (srv fresh_world) \<and>
   fst (start demo_os fresh_world) \<and>
   start demo_os (snd (start demo_os fresh_world)) = (True, snd (start demo_os fresh_world)) \<and>
   stop fresh_world = fresh_world \<and>
   length (filter is_listen (trace (snd (start demo_os (snd (start demo_os fresh_world)))))) = 1"
proof -
  have h1: "m_running (srv (snd (start demo_os fresh_world)))"
    by (simp add: start_demo demo_server_def)
  have h2: "\<not> m_running (srv fresh_world)" by (simp add: fresh_world_def new_server_def)
  have h3: "fst (start demo_os fresh_world)" by (simp add: start_demo)
  have t: "trace fresh_world = []" by (simp add: fresh_world_def)
  note l = lifecycle_idempotent [OF h1 h2 h2 h3, of demo_os]
  from l have a: "start demo_os (snd (start demo_os fresh_world)) = (True, snd (start demo_os fresh_world))"
    and b: "stop fresh_world = fresh_world" by blast+
  from l have "length (filter is_listen (trace (snd (start demo_os (snd (start demo_os fresh_world)))))) =
           length (filter is_listen (trace fresh_world)) + 1" by blast
  then have c: "length (filter is_listen (trace (snd (start demo_os (snd (start demo_os fresh_world)))))) = 1"
    by (simp only: t) simp
  from h1 h2 h3 a b c show ?thesis by blast
qed

end
